theory Spec2Isabelle
  imports Main
begin

section \<open>The persisted tables\<close>

text \<open>
  \<^verbatim>\<open>run\<close> creates three tables:
  \<^verbatim>\<open>contents (id INTEGER PRIMARY KEY, hash TEXT UNIQUE, html TEXT, markdown TEXT)\<close>,
  \<^verbatim>\<open>projects (id INTEGER PRIMARY KEY, url TEXT UNIQUE, title TEXT, state TEXT)\<close> and
  \<^verbatim>\<open>project_observations (id INTEGER PRIMARY KEY, project_id INTEGER REFERENCES projects (id),
  t DATETIME, content_id INTEGER REFERENCES contents (id))\<close>.
  A table is the list of its rows. The text columns hold the Go strings the program binds,
  so they are never NULL; the two reference columns of an observation are filled from a scalar
  subquery, which is NULL when it selects nothing, so they are optional.
\<close>

record content_row =
  c_id :: int
  c_hash :: string
  c_html :: string
  c_markdown :: string

record project_row =
  p_id :: int
  p_url :: string
  p_title :: string
  p_state :: string

record observation_row =
  o_id :: int
  o_project_id :: "int option"
  o_t :: int
  o_content_id :: "int option"

record database =
  contents :: "content_row list"
  projects :: "project_row list"
  project_observations :: "observation_row list"

text \<open>The state right after the three \<^verbatim>\<open>CREATE TABLE IF NOT EXISTS\<close> on a new file.\<close>

definition empty_db :: database where
  "empty_db = \<lparr>contents = [], projects = [], project_observations = []\<rparr>"

text \<open>The struct \<^verbatim>\<open>Project\<close> declared inside \<^verbatim>\<open>run\<close>.\<close>

record Project =
  Title :: string
  State :: string
  URL :: string
  HTMLSum :: string
  HTML :: string
  Markdown :: string

datatype error =
  TransportError
  | ParseError
  | RenderError
  | MarkdownError
  | StorageError
  | ConstraintError
  | RowidFull
  | IndexPanic

section \<open>The storage engine\<close>

text \<open>
  What the engine does outside the program's control is an input of the model: whether a call
  meets an I/O failure, and the candidate the engine draws when it has to pick a rowid at
  random.
\<close>

record exec_io =
  io_ok :: bool
  io_rowid :: "int option"

record tx_env =
  begin_io :: bool
  contents_io :: exec_io
  projects_io :: exec_io
  observations_io :: exec_io
  commit_io :: bool
  now :: int

definition max_rowid :: int where
  "max_rowid = 9223372036854775807"

text \<open>
  The rowid given to a row inserted with a NULL \<^verbatim>\<open>INTEGER PRIMARY KEY\<close>: 1 in an empty
  table, else one more than the largest rowid; when the largest is already the greatest 64-bit
  value the engine probes random positive candidates and gives up with SQLITE_FULL when it finds
  none unused.
\<close>

definition new_rowid :: "int list \<Rightarrow> int option \<Rightarrow> int option" where
  "new_rowid ids cand =
     (if ids = [] then Some 1
      else if Max (set ids) < max_rowid then Some (Max (set ids) + 1)
      else (case cand of
              None \<Rightarrow> None
            | Some r \<Rightarrow> if 1 \<le> r \<and> r \<le> max_rowid \<and> r \<notin> set ids then Some r else None))"

text \<open>\<^verbatim>\<open>(SELECT id FROM contents WHERE hash = ?)\<close> and \<^verbatim>\<open>(SELECT id FROM projects WHERE url = ?)\<close>:
  the id of the first matching row, NULL when there is none.\<close>

definition select_content_id :: "database \<Rightarrow> string \<Rightarrow> int option" where
  "select_content_id db h = map_option c_id (find (\<lambda>r. c_hash r = h) (contents db))"

definition select_project_id :: "database \<Rightarrow> string \<Rightarrow> int option" where
  "select_project_id db u = map_option p_id (find (\<lambda>r. p_url r = u) (projects db))"

text \<open>
  Foreign keys are enforced (\<^verbatim>\<open>_pragma=foreign_keys(1)\<close>) with the default action: a
  statement fails when it removes a parent key that a child row still references.
\<close>

definition dangling :: "int list \<Rightarrow> int list \<Rightarrow> int option list \<Rightarrow> bool" where
  "dangling old_ids new_ids refs =
     list_ex (\<lambda>j. j \<notin> set new_ids \<and> Some j \<in> set refs) old_ids"

text \<open>
  \<^verbatim>\<open>INSERT OR REPLACE INTO contents (id, hash, html, markdown)
  VALUES ((SELECT id FROM contents WHERE hash = ?), ?, ?, ?)\<close> bound to
  \<^verbatim>\<open>p.HTMLSum, p.HTMLSum, p.HTML, p.Markdown\<close>. REPLACE deletes every row that conflicts with
  the new one on the primary key or on the UNIQUE column, then inserts.
\<close>

definition exec_contents ::
  "exec_io \<Rightarrow> string \<Rightarrow> string \<Rightarrow> string \<Rightarrow> database \<Rightarrow> error + database" where
  "exec_contents io h html md db =
     (if \<not> io_ok io then Inl StorageError
      else case (case select_content_id db h of
                   Some i \<Rightarrow> Some i
                 | None \<Rightarrow> new_rowid (map c_id (contents db)) (io_rowid io)) of
             None \<Rightarrow> Inl RowidFull
           | Some i \<Rightarrow>
               let rows = filter (\<lambda>r. c_id r \<noteq> i \<and> c_hash r \<noteq> h) (contents db)
                            @ [\<lparr>c_id = i, c_hash = h, c_html = html, c_markdown = md\<rparr>]
               in if dangling (map c_id (contents db)) (map c_id rows)
                       (map o_content_id (project_observations db))
                  then Inl ConstraintError
                  else Inr (db\<lparr>contents := rows\<rparr>))"

text \<open>
  \<^verbatim>\<open>INSERT OR REPLACE INTO projects (id, url, title, state)
  VALUES ((SELECT id FROM projects WHERE url = ?), ?, ?, ?)\<close> bound to
  \<^verbatim>\<open>p.URL, p.URL, p.Title, p.State\<close>.
\<close>

definition exec_projects ::
  "exec_io \<Rightarrow> string \<Rightarrow> string \<Rightarrow> string \<Rightarrow> database \<Rightarrow> error + database" where
  "exec_projects io u title st db =
     (if \<not> io_ok io then Inl StorageError
      else case (case select_project_id db u of
                   Some i \<Rightarrow> Some i
                 | None \<Rightarrow> new_rowid (map p_id (projects db)) (io_rowid io)) of
             None \<Rightarrow> Inl RowidFull
           | Some i \<Rightarrow>
               let rows = filter (\<lambda>r. p_id r \<noteq> i \<and> p_url r \<noteq> u) (projects db)
                            @ [\<lparr>p_id = i, p_url = u, p_title = title, p_state = st\<rparr>]
               in if dangling (map p_id (projects db)) (map p_id rows)
                       (map o_project_id (project_observations db))
                  then Inl ConstraintError
                  else Inr (db\<lparr>projects := rows\<rparr>))"

text \<open>
  \<^verbatim>\<open>INSERT INTO project_observations (project_id, t, content_id)
  VALUES ((SELECT id FROM projects WHERE url = ?), ?, (SELECT id FROM contents WHERE hash = ?))\<close>
  bound to \<^verbatim>\<open>p.URL, time.Now(), p.HTMLSum\<close>. A non-NULL reference must name an existing
  parent row.
\<close>

definition ref_ok :: "int list \<Rightarrow> int option \<Rightarrow> bool" where
  "ref_ok ids r = (case r of None \<Rightarrow> True | Some i \<Rightarrow> i \<in> set ids)"

definition exec_observations ::
  "exec_io \<Rightarrow> string \<Rightarrow> int \<Rightarrow> string \<Rightarrow> database \<Rightarrow> error + database" where
  "exec_observations io u t h db =
     (if \<not> io_ok io then Inl StorageError
      else case new_rowid (map o_id (project_observations db)) (io_rowid io) of
             None \<Rightarrow> Inl RowidFull
           | Some i \<Rightarrow>
               let row = \<lparr>o_id = i, o_project_id = select_project_id db u, o_t = t,
                          o_content_id = select_content_id db h\<rparr>
               in if ref_ok (map p_id (projects db)) (o_project_id row)
                     \<and> ref_ok (map c_id (contents db)) (o_content_id row)
                  then Inr (db\<lparr>project_observations := project_observations db @ [row]\<rparr>)
                  else Inl ConstraintError)"

text \<open>
  A transaction works on its own view of the database, which starts as the committed state.
  \<^verbatim>\<open>tx.Rollback()\<close> throws the view away; \<^verbatim>\<open>tx.Commit()\<close> publishes it, and when the commit
  fails the engine keeps the committed state.
\<close>

definition tx_rollback :: "database \<Rightarrow> database \<Rightarrow> database" where
  "tx_rollback committed view = committed"

definition tx_commit :: "bool \<Rightarrow> database \<Rightarrow> database \<Rightarrow> error option \<times> database" where
  "tx_commit ok committed view = (if ok then (None, view) else (Some StorageError, committed))"

section \<open>The atomic-upsert unit\<close>

text \<open>
  The closure of \<^verbatim>\<open>run\<close> that stores one project: \<^verbatim>\<open>db.Begin()\<close>, the deferred
  \<^verbatim>\<open>tx.Rollback()\<close>, the three \<^verbatim>\<open>tx.Exec\<close> with an early return on each error, and
  \<^verbatim>\<open>tx.Commit()\<close>. The result is the returned error and the committed database.
\<close>

definition store :: "tx_env \<Rightarrow> Project \<Rightarrow> database \<Rightarrow> error option \<times> database" where
  "store env p db =
     (if \<not> begin_io env then (Some StorageError, db)
      else case exec_contents (contents_io env) (HTMLSum p) (HTML p) (Markdown p) db of
        Inl e \<Rightarrow> (Some e, tx_rollback db db)
      | Inr tx1 \<Rightarrow>
          (case exec_projects (projects_io env) (URL p) (Title p) (State p) tx1 of
             Inl e \<Rightarrow> (Some e, tx_rollback db tx1)
           | Inr tx2 \<Rightarrow>
               (case exec_observations (observations_io env) (URL p) (now env) (HTMLSum p) tx2 of
                  Inl e \<Rightarrow> (Some e, tx_rollback db tx2)
                | Inr tx3 \<Rightarrow> tx_commit (commit_io env) db tx3)))"

section \<open>The parsed page\<close>

text \<open>
  A parsed document is a tree of \<^verbatim>\<open>html.Node\<close>: the node's type, its data (the tag name of an
  element, the characters of a text node), its attribute list and its children.
\<close>

datatype node_type = ElementNode | TextNode | CommentNode | DoctypeNode | DocumentNode

datatype node =
  Node (n_type: node_type) (n_data: string) (n_attr: "(string \<times> string) list")
    (n_children: "node list")

text \<open>
  The selectors the program passes to \<^verbatim>\<open>Find\<close>, by shape: \<^verbatim>\<open>#id\<close>, \<^verbatim>\<open>.class\<close>, \<^verbatim>\<open>tag\<close>,
  \<^verbatim>\<open>tag.class\<close>, \<^verbatim>\<open>tag[attr]\<close>, \<^verbatim>\<open>tag[attr=value]\<close> and \<^verbatim>\<open>[attr=value]\<close>.
\<close>

datatype selector =
  ById string
  | ByClass string
  | ByTag string
  | ByTagClass string string
  | ByTagAttr string string
  | ByTagAttrEq string string string
  | ByAttrEq string string

text \<open>The pieces of a class attribute between the separators space, tab, CR, LF and FF.\<close>

fun split_ws :: "string \<Rightarrow> string \<Rightarrow> string list" where
  "split_ws [] cur = [cur]"
| "split_ws (c # cs) cur =
     (if c \<in> set [CHR '' '', CHR 0x09, CHR 0x0D, CHR 0x0A, CHR 0x0C]
      then cur # split_ws cs []
      else split_ws cs (cur @ [c]))"

definition match_attribute :: "node \<Rightarrow> string \<Rightarrow> (string \<Rightarrow> bool) \<Rightarrow> bool" where
  "match_attribute n k f = list_ex (\<lambda>(k', v). k' = k \<and> f v) (n_attr n)"

definition has_class :: "string \<Rightarrow> node \<Rightarrow> bool" where
  "has_class c n = match_attribute n ''class'' (\<lambda>v. c \<in> set (split_ws v []))"

fun matches :: "selector \<Rightarrow> node \<Rightarrow> bool" where
  "matches (ById i) n = (n_type n = ElementNode \<and> match_attribute n ''id'' (\<lambda>v. v = i))"
| "matches (ByClass c) n = (n_type n = ElementNode \<and> has_class c n)"
| "matches (ByTag t) n = (n_type n = ElementNode \<and> n_data n = t)"
| "matches (ByTagClass t c) n = (n_type n = ElementNode \<and> n_data n = t \<and> has_class c n)"
| "matches (ByTagAttr t k) n =
     (n_type n = ElementNode \<and> n_data n = t \<and> match_attribute n k (\<lambda>v. True))"
| "matches (ByTagAttrEq t k x) n =
     (n_type n = ElementNode \<and> n_data n = t \<and> match_attribute n k (\<lambda>v. v = x))"
| "matches (ByAttrEq k x) n = (n_type n = ElementNode \<and> match_attribute n k (\<lambda>v. v = x))"

text \<open>All nodes of a subtree that match, the root included, in document order.\<close>

fun match_all :: "selector \<Rightarrow> node \<Rightarrow> node list" where
  "match_all s (Node t d a cs) =
     (if matches s (Node t d a cs) then [Node t d a cs] else []) @ concat (map (match_all s) cs)"

text \<open>
  A selection is the list of its nodes, each with its subtree. \<^verbatim>\<open>Selection.Find\<close> gives the
  matching proper descendants of every node of the selection. The program mutates the nodes in
  place and only ever reads a selection through \<^verbatim>\<open>First\<close>, the first node's inner HTML or a
  further \<^verbatim>\<open>Find\<close>, so a node selected twice (an element nested in another selected element)
  is kept as two equal subtrees that receive the same updates.
\<close>

definition find_nodes :: "selector \<Rightarrow> node list \<Rightarrow> node list" where
  "find_nodes s ns =
     concat (map (\<lambda>n. concat (map (match_all s)
                                 (filter (\<lambda>c. n_type c = ElementNode) (n_children n)))) ns)"

text \<open>
  \<^verbatim>\<open>AttrOr\<close>, \<^verbatim>\<open>SetAttr\<close> and \<^verbatim>\<open>RemoveAttr\<close> on one node's attribute list. Each works
  on the first attribute with the key; \<^verbatim>\<open>RemoveAttr\<close> moves the last attribute into the place
  of the one it removes.
\<close>

fun attr_or :: "(string \<times> string) list \<Rightarrow> string \<Rightarrow> string \<Rightarrow> string" where
  "attr_or [] k dflt = dflt"
| "attr_or ((k', v) # as) k dflt = (if k' = k then v else attr_or as k dflt)"

fun set_attr :: "string \<Rightarrow> string \<Rightarrow> (string \<times> string) list \<Rightarrow> (string \<times> string) list" where
  "set_attr k v [] = [(k, v)]"
| "set_attr k v ((k', v') # as) = (if k' = k then (k', v) # as else (k', v') # set_attr k v as)"

fun remove_attr :: "string \<Rightarrow> (string \<times> string) list \<Rightarrow> (string \<times> string) list" where
  "remove_attr k [] = []"
| "remove_attr k ((k', v') # as) =
     (if k' = k then (if as = [] then [] else last as # butlast as)
      else (k', v') # remove_attr k as)"

text \<open>\<^verbatim>\<open>Selection.AttrOr\<close>: the attribute of the first node, the default on an empty selection.\<close>

definition sel_attr_or :: "node list \<Rightarrow> string \<Rightarrow> string \<Rightarrow> string" where
  "sel_attr_or ns k dflt = (case ns of [] \<Rightarrow> dflt | n # _ \<Rightarrow> attr_or (n_attr n) k dflt)"

text \<open>\<^verbatim>\<open>sel.Find(s).Remove()\<close>: every matching proper descendant leaves its parent.\<close>

fun remove_desc :: "selector \<Rightarrow> node \<Rightarrow> node" where
  "remove_desc s (Node t d a cs) =
     Node t d a (map (remove_desc s) (filter (\<lambda>c. \<not> matches s c) cs))"

text \<open>
  \<^verbatim>\<open>for _, x := range sel.Find(s).EachIter() { ... }\<close> with a body that rewrites the attributes
  of \<^verbatim>\<open>x\<close>: every matching proper descendant gets its attribute list rewritten once.
\<close>

fun update_all :: "selector \<Rightarrow> ((string \<times> string) list \<Rightarrow> (string \<times> string) list) \<Rightarrow> node \<Rightarrow> node" where
  "update_all s f (Node t d a cs) =
     Node t d (if matches s (Node t d a cs) then f a else a) (map (update_all s f) cs)"

definition update_desc :: "selector \<Rightarrow> ((string \<times> string) list \<Rightarrow> (string \<times> string) list) \<Rightarrow> node \<Rightarrow> node" where
  "update_desc s f n = Node (n_type n) (n_data n) (n_attr n) (map (update_all s f) (n_children n))"

text \<open>\<^verbatim>\<open>Selection.Text\<close> of one node: the text nodes below it, concatenated.\<close>

fun node_text :: "node \<Rightarrow> string" where
  "node_text (Node t d a cs) = (if t = TextNode then d else concat (map node_text cs))"

section \<open>The libraries outside the repository\<close>

text \<open>
  The program calls \<^verbatim>\<open>net/http\<close> and \<^verbatim>\<open>goquery.NewDocumentFromReader\<close> (\<open>fetch\<close>),
  \<^verbatim>\<open>net/url\<close> (\<open>url_parse\<close>, \<open>resolve_reference\<close>, \<open>url_string\<close>), \<^verbatim>\<open>html.Render\<close>
  (\<open>render\<close>), \<^verbatim>\<open>gohtml.Format\<close>, \<^verbatim>\<open>htmltomarkdown.ConvertString\<close> and
  \<^verbatim>\<open>base62.EncodeToString\<close> of \<^verbatim>\<open>sha256.Sum224\<close> (\<open>digest\<close>). They are parameters of the
  model.
\<close>

record 'u externals =
  fetch :: "string \<Rightarrow> error + node"
  url_parse :: "string \<Rightarrow> 'u option"
  resolve_reference :: "'u \<Rightarrow> 'u \<Rightarrow> 'u"
  url_string :: "'u \<Rightarrow> string"
  render :: "node list \<Rightarrow> error + string"
  gohtml_format :: "string \<Rightarrow> string"
  to_markdown :: "string \<Rightarrow> error + string"
  digest :: "string \<Rightarrow> string"

section \<open>The crawl\<close>

definition projects_page :: string where
  "projects_page = ''https://www.shapeyourcityhalifax.ca/projects''"

definition landing_page :: string where
  "landing_page = ''https://www.shapeyourcityhalifax.ca/shape-your-city-halifax''"

text \<open>The closure \<^verbatim>\<open>abs\<close>; \<open>base\<close> is the parsed \<^verbatim>\<open>projectsURL\<close>.\<close>

definition abs_url :: "'u externals \<Rightarrow> 'u \<Rightarrow> string \<Rightarrow> string" where
  "abs_url ext base s =
     (case url_parse ext s of
        None \<Rightarrow> []
      | Some rel \<Rightarrow> url_string ext (resolve_reference ext base rel))"

text \<open>
  \<^verbatim>\<open>get\<close>: fetch and parse the page, then one selection per selector. \<^verbatim>\<open>doc.Find\<close> always
  returns a selection, possibly with no node; the function still tests the pointer for nil and
  then returns no selections and no error.
\<close>

definition doc_find :: "node \<Rightarrow> selector \<Rightarrow> node list option" where
  "doc_find doc s = Some (find_nodes s [doc])"

fun get_sels :: "node \<Rightarrow> selector list \<Rightarrow> node list list \<Rightarrow> node list list" where
  "get_sels doc [] sels = sels"
| "get_sels doc (s # selectors) sels =
     (case doc_find doc s of
        None \<Rightarrow> []
      | Some sel \<Rightarrow> get_sels doc selectors (sels @ [sel]))"

definition get :: "'u externals \<Rightarrow> string \<Rightarrow> selector list \<Rightarrow> error + node list list" where
  "get ext u selectors =
     (case fetch ext u of
        Inl e \<Rightarrow> Inl e
      | Inr doc \<Rightarrow> Inr (get_sels doc selectors []))"

text \<open>The value \<^verbatim>\<open>p\<close> built from one project tile; the other fields are empty strings.\<close>

definition tile_project :: "'u externals \<Rightarrow> 'u \<Rightarrow> node \<Rightarrow> Project" where
  "tile_project ext base tile =
     \<lparr>Title = [],
      State = attr_or (n_attr tile) ''data-state'' [],
      URL = abs_url ext base
              (sel_attr_or (find_nodes (ByTagClass ''a'' ''project-tile__link'') [tile]) ''href'' []),
      HTMLSum = [], HTML = [], Markdown = []\<rparr>"

text \<open>The loop over the project tiles with its two \<^verbatim>\<open>continue\<close>.\<close>

fun discover :: "string list \<Rightarrow> Project list \<Rightarrow> Project list \<Rightarrow> Project list" where
  "discover onlyURLs [] found = found"
| "discover onlyURLs (p # tiles) found =
     (if URL p = landing_page then discover onlyURLs tiles found
      else if length onlyURLs > 0 \<and> \<not> List.member onlyURLs (URL p)
      then discover onlyURLs tiles found
      else discover onlyURLs tiles (found @ [p]))"

text \<open>The selectors removed from a project page.\<close>

definition removes :: "selector list" where
  "removes =
     [ById ''map-layers'',
      ByTagAttr ''div'' ''data-markers'',
      ByTagAttrEq ''input'' ''name'' ''authenticity_token'',
      ByTagClass ''div'' ''widget_follow_project'',
      ByTagClass ''div'' ''widget_related_projects'',
      ById ''qanda_description_text'',
      ByTag ''script'',
      ByClass ''SocialSharing'',
      ByAttrEq ''name'' ''a_comment_body'']"

text \<open>The two loops that make the links and the image sources absolute.\<close>

definition absolutize :: "'u externals \<Rightarrow> 'u \<Rightarrow> node list \<Rightarrow> node list" where
  "absolutize ext base sel =
     map (update_desc (ByTag ''img'') (\<lambda>as. set_attr ''src'' (abs_url ext base (attr_or as ''src'' [])) as))
       (map (update_desc (ByTag ''a'') (\<lambda>as. set_attr ''href'' (abs_url ext base (attr_or as ''href'' [])) as))
          sel)"

text \<open>The clean-up of the selection \<^verbatim>\<open>sels[0]\<close> of a project page, up to the two link loops.\<close>

definition clean :: "'u externals \<Rightarrow> 'u \<Rightarrow> node list \<Rightarrow> node list" where
  "clean ext base sel =
     absolutize ext base
       (map (update_desc (ByTag ''label'') (remove_attr ''for''))
          (map (update_desc (ByTag ''input'') (remove_attr ''id''))
             (foldl (\<lambda>sel s. map (remove_desc s) sel) sel removes)))"

text \<open>
  \<^verbatim>\<open>sel.Find("h1").First().Text()\<close>, and \<^verbatim>\<open>sel.Html()\<close>: the rendering of the first node's
  children, the empty string on an empty selection and when rendering fails, since the caller
  drops the error.
\<close>

definition title_of :: "node list \<Rightarrow> string" where
  "title_of sel = (case find_nodes (ByTag ''h1'') sel of [] \<Rightarrow> [] | h # _ \<Rightarrow> node_text h)"

definition inner_html :: "'u externals \<Rightarrow> node list \<Rightarrow> string" where
  "inner_html ext sel =
     (case sel of
        [] \<Rightarrow> []
      | n # _ \<Rightarrow> (case render ext (n_children n) of Inl e \<Rightarrow> [] | Inr s \<Rightarrow> s))"

text \<open>\<^verbatim>\<open>sum := sha256.Sum224([]byte(p.HTML)); p.HTMLSum = base62.EncodeToString(sum[:])\<close>.\<close>

definition fingerprint :: "'u externals \<Rightarrow> Project \<Rightarrow> Project" where
  "fingerprint ext p = p\<lparr>HTMLSum := digest ext (HTML p)\<rparr>"

text \<open>
  One turn of the loop over the projects: fetch the page, clean it, fill in the title, the
  formatted HTML, the markdown and the fingerprint, and store the project.
\<close>

definition scrape :: "'u externals \<Rightarrow> 'u \<Rightarrow> tx_env \<Rightarrow> Project \<Rightarrow> database \<Rightarrow> error option \<times> database" where
  "scrape ext base env p db =
     (case get ext (URL p) [ById ''yield''] of
        Inl e \<Rightarrow> (Some e, db)
      | Inr sels \<Rightarrow>
          (case sels of
             [] \<Rightarrow> (Some IndexPanic, db)
           | sel0 # _ \<Rightarrow>
               let sel = clean ext base sel0;
                   p1 = p\<lparr>Title := title_of sel\<rparr>;
                   p2 = p1\<lparr>HTML := gohtml_format ext (inner_html ext sel)\<rparr>
               in (case to_markdown ext (HTML p2) of
                     Inl e \<Rightarrow> (Some e, db)
                   | Inr md \<Rightarrow>
                       let p3 = p2\<lparr>Markdown := md\<rparr>;
                           p4 = fingerprint ext p3
                       in store env p4 db)))"

text \<open>The loop over the projects returns at the first error; \<open>envs i\<close> is what the engine does
  in turn \<open>i\<close>.\<close>

fun scrape_all :: "'u externals \<Rightarrow> 'u \<Rightarrow> (nat \<Rightarrow> tx_env) \<Rightarrow> nat \<Rightarrow> Project list \<Rightarrow> database \<Rightarrow> error option \<times> database" where
  "scrape_all ext base envs i [] db = (None, db)"
| "scrape_all ext base envs i (p # ps) db =
     (case scrape ext base (envs i) p db of
        (Some e, db') \<Rightarrow> (Some e, db')
      | (None, db') \<Rightarrow> scrape_all ext base envs (Suc i) ps db')"

text \<open>\<^verbatim>\<open>run\<close> after the tables exist: the project list, the filter, the loop.\<close>

definition run :: "'u externals \<Rightarrow> (nat \<Rightarrow> tx_env) \<Rightarrow> string list \<Rightarrow> database \<Rightarrow> error option \<times> database" where
  "run ext envs onlyURLs db =
     (case url_parse ext projects_page of
        None \<Rightarrow> (Some ParseError, db)
      | Some base \<Rightarrow>
          (case get ext projects_page [ByClass ''project-tile''] of
             Inl e \<Rightarrow> (Some e, db)
           | Inr sels \<Rightarrow>
               (case sels of
                  [] \<Rightarrow> (Some IndexPanic, db)
                | tiles # _ \<Rightarrow>
                    scrape_all ext base envs 0
                      (discover onlyURLs (map (tile_project ext base) tiles) []) db)))"

section \<open>Notions used by the properties\<close>

text \<open>
  The content-store put of one unit: the fingerprint of the page is computed and the
  \<^verbatim>\<open>contents\<close> statement is executed with it; the fingerprint is what the caller goes on with.
\<close>

definition put :: "'u externals \<Rightarrow> exec_io \<Rightarrow> Project \<Rightarrow> database \<Rightarrow> error + string \<times> database" where
  "put ext io p db =
     (let p' = fingerprint ext p
      in case exec_contents io (HTMLSum p') (HTML p') (Markdown p') db of
           Inl e \<Rightarrow> Inl e
         | Inr db' \<Rightarrow> Inr (HTMLSum p', db'))"

text \<open>The put repeated once for every element of \<open>ios\<close>, collecting the fingerprints.\<close>

fun put_many :: "'u externals \<Rightarrow> exec_io list \<Rightarrow> Project \<Rightarrow> database \<Rightarrow> error + string list \<times> database" where
  "put_many ext [] p db = Inr ([], db)"
| "put_many ext (io # ios) p db =
     (case put ext io p db of
        Inl e \<Rightarrow> Inl e
      | Inr (fp, db') \<Rightarrow>
          (case put_many ext ios p db' of
             Inl e \<Rightarrow> Inl e
           | Inr (fps, db'') \<Rightarrow> Inr (fp # fps, db'')))"

text \<open>
  A history of units, over any number of runs: a unit that fails leaves the database as it was
  and the history goes on. The result lists the URLs of the units that succeeded.
\<close>

fun store_each :: "(tx_env \<times> Project) list \<Rightarrow> database \<Rightarrow> string list \<times> database" where
  "store_each [] db = ([], db)"
| "store_each ((env, p) # units) db =
     (case store env p db of
        (Some e, db') \<Rightarrow> store_each units db'
      | (None, db') \<Rightarrow> (case store_each units db' of (ok, db'') \<Rightarrow> (URL p # ok, db'')))"

text \<open>The number of observations of the project with a given URL.\<close>

definition obs_count :: "database \<Rightarrow> string \<Rightarrow> nat" where
  "obs_count db u =
     (case select_project_id db u of
        None \<Rightarrow> 0
      | Some i \<Rightarrow> length (filter (\<lambda>ob. o_project_id ob = Some i) (project_observations db)))"

text \<open>
  What the schema guarantees of every stored state: primary keys and UNIQUE columns have no
  duplicates, and every reference of an observation names an existing row.
\<close>

definition wf_db :: "database \<Rightarrow> bool" where
  "wf_db db =
     (distinct (map c_id (contents db)) \<and> distinct (map c_hash (contents db))
      \<and> distinct (map p_id (projects db)) \<and> distinct (map p_url (projects db))
      \<and> distinct (map o_id (project_observations db))
      \<and> list_all (\<lambda>ob. ref_ok (map p_id (projects db)) (o_project_id ob)
                       \<and> ref_ok (map c_id (contents db)) (o_content_id ob))
           (project_observations db))"

text \<open>An engine that meets no failure, at time \<open>t\<close>.\<close>

definition ok_io :: exec_io where
  "ok_io = \<lparr>io_ok = True, io_rowid = None\<rparr>"

definition ok_env :: "int \<Rightarrow> tx_env" where
  "ok_env t = \<lparr>begin_io = True, contents_io = ok_io, projects_io = ok_io,
               observations_io = ok_io, commit_io = True, now = t\<rparr>"

text \<open>A node with everything below it, in document order, and the nodes strictly below it.\<close>

fun subtree :: "node \<Rightarrow> node list" where
  "subtree (Node t d a cs) = Node t d a cs # concat (map subtree cs)"

definition descendants :: "node \<Rightarrow> node list" where
  "descendants n = concat (map subtree (n_children n))"

text \<open>What a node is without its children: its type, its data and its attribute list.\<close>

definition head :: "node \<Rightarrow> node_type \<times> string \<times> (string \<times> string) list" where
  "head n = (n_type n, n_data n, n_attr n)"

text \<open>
  What the link loops are to do to one node: the \<^verbatim>\<open>href\<close> of an \<^verbatim>\<open>a\<close> element and the
  \<^verbatim>\<open>src\<close> of an \<^verbatim>\<open>img\<close> element become the absolute form of their old value, the empty
  string standing for a missing attribute; every other node is left alone.
\<close>

definition link_attr :: "'u externals \<Rightarrow> 'u \<Rightarrow> string \<Rightarrow> (string \<times> string) list \<Rightarrow> (string \<times> string) list" where
  "link_attr ext base k as = set_attr k (abs_url ext base (attr_or as k [])) as"

definition absolute :: "'u externals \<Rightarrow> 'u \<Rightarrow> node_type \<times> string \<times> (string \<times> string) list
    \<Rightarrow> node_type \<times> string \<times> (string \<times> string) list" where
  "absolute ext base h =
     (case h of (t, d, a) \<Rightarrow>
        (t, d, if t = ElementNode \<and> d = ''a'' then link_attr ext base ''href'' a
               else if t = ElementNode \<and> d = ''img'' then link_attr ext base ''src'' a
               else a))"

section \<open>Sample inputs\<close>

text \<open>A small instance of the libraries, and a few pages and databases, to run the model on.\<close>

definition page_gone :: node where
  "page_gone =
     Node DocumentNode [] []
       [Node ElementNode ''html'' []
          [Node ElementNode ''body'' []
             [Node ElementNode ''h1'' [] [Node TextNode ''Not found'' [] []]]]]"

definition page_ok :: node where
  "page_ok =
     Node DocumentNode [] []
       [Node ElementNode ''html'' []
          [Node ElementNode ''body'' []
             [Node ElementNode ''div'' [(''id'', ''yield'')]
                [Node ElementNode ''h1'' [] [Node TextNode ''Park'' [] []],
                 Node ElementNode ''script'' [] [Node TextNode ''x()'' [] []],
                 Node ElementNode ''a'' [(''href'', ''/park'')] [Node TextNode ''more'' [] []],
                 Node ElementNode ''img'' [(''alt'', ''map'')] [],
                 Node ElementNode ''a'' [(''href'', ''%'')] []]]]]"

definition sample_ext :: "string externals" where
  "sample_ext =
     \<lparr>fetch = (\<lambda>u. if u = ''https://x/gone'' then Inr page_gone
                     else if u = ''https://x/park'' then Inr page_ok
                     else Inl TransportError),
      url_parse = (\<lambda>s. if CHR ''%'' \<in> set s then None else Some s),
      resolve_reference = (\<lambda>b r. if r = [] then b else ''https://x'' @ r),
      url_string = (\<lambda>u. u),
      render = (\<lambda>ns. Inr (concat (map node_text ns))),
      gohtml_format = (\<lambda>s. s),
      to_markdown = (\<lambda>s. Inr s),
      digest = (\<lambda>s. ''#'' @ s)\<rparr>"

definition db_A :: database where
  "db_A = \<lparr>contents = [\<lparr>c_id = 1, c_hash = ''h'', c_html = ''A'', c_markdown = ''a''\<rparr>],
           projects = [], project_observations = []\<rparr>"

definition page_A :: Project where
  "page_A = \<lparr>Title = ''T'', State = ''open'', URL = ''u'', HTMLSum = ''hA'', HTML = ''A'',
             Markdown = ''a''\<rparr>"

definition page_B :: Project where
  "page_B = \<lparr>Title = ''T'', State = ''open'', URL = ''u'', HTMLSum = ''hB'', HTML = ''B'',
             Markdown = ''b''\<rparr>"

definition db_1 :: database where
  "db_1 = \<lparr>contents = [\<lparr>c_id = 1, c_hash = ''hA'', c_html = ''A'', c_markdown = ''a''\<rparr>],
           projects = [\<lparr>p_id = 1, p_url = ''u'', p_title = ''T'', p_state = ''open''\<rparr>],
           project_observations =
             [\<lparr>o_id = 1, o_project_id = Some 1, o_t = 1, o_content_id = Some 1\<rparr>]\<rparr>"

definition db_2 :: database where
  "db_2 = \<lparr>contents = [\<lparr>c_id = 1, c_hash = ''hA'', c_html = ''A'', c_markdown = ''a''\<rparr>,
                       \<lparr>c_id = 2, c_hash = ''hB'', c_html = ''B'', c_markdown = ''b''\<rparr>],
           projects = [\<lparr>p_id = 1, p_url = ''u'', p_title = ''T'', p_state = ''open''\<rparr>],
           project_observations =
             [\<lparr>o_id = 1, o_project_id = Some 1, o_t = 1, o_content_id = Some 1\<rparr>,
              \<lparr>o_id = 2, o_project_id = Some 1, o_t = 2, o_content_id = Some 2\<rparr>]\<rparr>"

definition db_3 :: database where
  "db_3 = \<lparr>contents = [\<lparr>c_id = 1, c_hash = ''hA'', c_html = ''A'', c_markdown = ''a''\<rparr>],
           projects = [\<lparr>p_id = 1, p_url = ''u'', p_title = ''T'', p_state = ''open''\<rparr>],
           project_observations =
             [\<lparr>o_id = 1, o_project_id = Some 1, o_t = 1, o_content_id = Some 1\<rparr>,
              \<lparr>o_id = 2, o_project_id = Some 1, o_t = 3, o_content_id = Some 1\<rparr>]\<rparr>"

definition tile :: "string \<Rightarrow> Project" where
  "tile u = \<lparr>Title = [], State = ''open'', URL = u, HTMLSum = [], HTML = [], Markdown = []\<rparr>"

section \<open>The statements, one by one\<close>

lemma find_filter_append_new:
  "P x \<Longrightarrow> (\<And>y. P y \<Longrightarrow> \<not> Q y) \<Longrightarrow> find P (filter Q xs @ [x]) = Some x"
  by (induction xs) auto

lemma exec_contents_row:
  assumes "exec_contents io h html md db = Inr db'"
  shows "\<exists>i. contents db' = filter (\<lambda>r. c_id r \<noteq> i \<and> c_hash r \<noteq> h) (contents db)
                 @ [\<lparr>c_id = i, c_hash = h, c_html = html, c_markdown = md\<rparr>]
           \<and> (case select_content_id db h of Some j \<Rightarrow> i = j
               | None \<Rightarrow> new_rowid (map c_id (contents db)) (io_rowid io) = Some i)
           \<and> projects db' = projects db
           \<and> project_observations db' = project_observations db"
  using assms
  by (auto simp: exec_contents_def Let_def split: if_splits option.splits)

lemma exec_projects_row:
  assumes "exec_projects io u title st db = Inr db'"
  shows "\<exists>i. projects db' = filter (\<lambda>r. p_id r \<noteq> i \<and> p_url r \<noteq> u) (projects db)
                 @ [\<lparr>p_id = i, p_url = u, p_title = title, p_state = st\<rparr>]
           \<and> (case select_project_id db u of Some j \<Rightarrow> i = j
               | None \<Rightarrow> new_rowid (map p_id (projects db)) (io_rowid io) = Some i)
           \<and> contents db' = contents db
           \<and> project_observations db' = project_observations db"
  using assms
  by (auto simp: exec_projects_def Let_def split: if_splits option.splits)

lemma exec_observations_row:
  assumes "exec_observations io u t h db = Inr db'"
  shows "\<exists>i. project_observations db' = project_observations db
                 @ [\<lparr>o_id = i, o_project_id = select_project_id db u, o_t = t,
                     o_content_id = select_content_id db h\<rparr>]
           \<and> new_rowid (map o_id (project_observations db)) (io_rowid io) = Some i
           \<and> contents db' = contents db
           \<and> projects db' = projects db"
  using assms
  by (auto simp: exec_observations_def Let_def split: if_splits option.splits)

lemma exec_contents_select:
  assumes "exec_contents io h html md db = Inr db'"
  shows "\<exists>i. select_content_id db' h = Some i
     \<and> \<lparr>c_id = i, c_hash = h, c_html = html, c_markdown = md\<rparr> \<in> set (contents db')"
proof -
  from exec_contents_row [OF assms] obtain i where
    c: "contents db' = filter (\<lambda>r. c_id r \<noteq> i \<and> c_hash r \<noteq> h) (contents db)
                 @ [\<lparr>c_id = i, c_hash = h, c_html = html, c_markdown = md\<rparr>]"
    by blast
  have "find (\<lambda>r. c_hash r = h) (contents db')
          = Some \<lparr>c_id = i, c_hash = h, c_html = html, c_markdown = md\<rparr>"
    unfolding c by (rule find_filter_append_new) auto
  then show ?thesis using c by (auto simp: select_content_id_def)
qed

lemma exec_projects_select:
  assumes "exec_projects io u title st db = Inr db'"
  shows "\<exists>i. select_project_id db' u = Some i
     \<and> \<lparr>p_id = i, p_url = u, p_title = title, p_state = st\<rparr> \<in> set (projects db')"
proof -
  from exec_projects_row [OF assms] obtain i where
    c: "projects db' = filter (\<lambda>r. p_id r \<noteq> i \<and> p_url r \<noteq> u) (projects db)
                 @ [\<lparr>p_id = i, p_url = u, p_title = title, p_state = st\<rparr>]"
    by blast
  have "find (\<lambda>r. p_url r = u) (projects db')
          = Some \<lparr>p_id = i, p_url = u, p_title = title, p_state = st\<rparr>"
    unfolding c by (rule find_filter_append_new) auto
  then show ?thesis using c by (auto simp: select_project_id_def)
qed

section \<open>The unit is all or nothing\<close>

lemma store_failure:
  "store env p db = (Some e, db') \<Longrightarrow> db' = db"
  by (auto simp: store_def tx_rollback_def tx_commit_def split: if_splits sum.splits)

lemma store_success:
  assumes "store env p db = (None, db')"
  shows "\<exists>tx1 tx2.
     exec_contents (contents_io env) (HTMLSum p) (HTML p) (Markdown p) db = Inr tx1
   \<and> exec_projects (projects_io env) (URL p) (Title p) (State p) tx1 = Inr tx2
   \<and> exec_observations (observations_io env) (URL p) (now env) (HTMLSum p) tx2 = Inr db'"
  using assms
  by (auto simp: store_def tx_rollback_def tx_commit_def split: if_splits sum.splits)

lemmas engine_defs =
  store_def exec_contents_def exec_projects_def exec_observations_def
  select_content_id_def select_project_id_def new_rowid_def max_rowid_def dangling_def
  ref_ok_def tx_rollback_def tx_commit_def empty_db_def ok_env_def ok_io_def

text \<open>
  C1. Whatever a unit returns, either it returned an error and the committed database is the
  one it started from, or it returned none and the three statements all succeeded in the
  source's order: the \<^verbatim>\<open>contents\<close> row of the page is in the transaction's view before the
  \<^verbatim>\<open>projects\<close> statement runs, the \<^verbatim>\<open>projects\<close> row is there before the observation is
  inserted, and the committed observation log is the old one plus one row that references the
  ids of these two rows.
\<close>

theorem store_all_or_nothing:
  assumes "store env p db = (r, db')"
  shows "(r \<noteq> None \<longrightarrow> db' = db)
    \<and> (r = None \<longrightarrow> (\<exists>tx1 tx2 ci pi oi.
          exec_contents (contents_io env) (HTMLSum p) (HTML p) (Markdown p) db = Inr tx1
        \<and> \<lparr>c_id = ci, c_hash = HTMLSum p, c_html = HTML p, c_markdown = Markdown p\<rparr>
             \<in> set (contents tx1)
        \<and> exec_projects (projects_io env) (URL p) (Title p) (State p) tx1 = Inr tx2
        \<and> contents tx2 = contents tx1
        \<and> \<lparr>p_id = pi, p_url = URL p, p_title = Title p, p_state = State p\<rparr>
             \<in> set (projects tx2)
        \<and> exec_observations (observations_io env) (URL p) (now env) (HTMLSum p) tx2 = Inr db'
        \<and> contents db' = contents tx2
        \<and> projects db' = projects tx2
        \<and> project_observations db' = project_observations db
             @ [\<lparr>o_id = oi, o_project_id = Some pi, o_t = now env, o_content_id = Some ci\<rparr>]))"
proof (cases r)
  case (Some e)
  with assms show ?thesis by (auto dest: store_failure)
next
  case None
  with assms obtain tx1 tx2 where
    e1: "exec_contents (contents_io env) (HTMLSum p) (HTML p) (Markdown p) db = Inr tx1" and
    e2: "exec_projects (projects_io env) (URL p) (Title p) (State p) tx1 = Inr tx2" and
    e3: "exec_observations (observations_io env) (URL p) (now env) (HTMLSum p) tx2 = Inr db'"
    using store_success by blast
  from exec_contents_select [OF e1] obtain ci where
    c1: "select_content_id tx1 (HTMLSum p) = Some ci" and
    c2: "\<lparr>c_id = ci, c_hash = HTMLSum p, c_html = HTML p, c_markdown = Markdown p\<rparr>
             \<in> set (contents tx1)"
    by blast
  from exec_projects_select [OF e2] obtain pi where
    p1: "select_project_id tx2 (URL p) = Some pi" and
    p2: "\<lparr>p_id = pi, p_url = URL p, p_title = Title p, p_state = State p\<rparr>
             \<in> set (projects tx2)"
    by blast
  from exec_projects_row [OF e2] have k2: "contents tx2 = contents tx1"
    and o2: "project_observations tx2 = project_observations tx1" by auto
  from exec_contents_row [OF e1] have o1: "project_observations tx1 = project_observations db"
    by auto
  have c3: "select_content_id tx2 (HTMLSum p) = Some ci"
    using c1 k2 by (simp add: select_content_id_def)
  from exec_observations_row [OF e3] obtain oi where
    "project_observations db' = project_observations tx2
         @ [\<lparr>o_id = oi, o_project_id = select_project_id tx2 (URL p), o_t = now env,
             o_content_id = select_content_id tx2 (HTMLSum p)\<rparr>]"
    and k3: "contents db' = contents tx2" and j3: "projects db' = projects tx2"
    by blast
  then have "project_observations db' = project_observations db
         @ [\<lparr>o_id = oi, o_project_id = Some pi, o_t = now env, o_content_id = Some ci\<rparr>]"
    using p1 c3 o1 o2 by simp
  with None e1 e2 e3 c2 p2 k2 k3 j3 show ?thesis by blast
qed

theorem store_all_or_nothing_witness:
  "store ((ok_env 5)\<lparr>observations_io := \<lparr>io_ok = False, io_rowid = None\<rparr>\<rparr>)
      \<lparr>Title = ''T'', State = ''open'', URL = ''u'', HTMLSum = ''h'', HTML = ''A'',
       Markdown = ''a''\<rparr>
      empty_db = (Some StorageError, empty_db)
   \<and> store (ok_env 5)
      \<lparr>Title = ''T'', State = ''open'', URL = ''u'', HTMLSum = ''h'', HTML = ''A'',
       Markdown = ''a''\<rparr>
      empty_db
     = (None, \<lparr>contents = [\<lparr>c_id = 1, c_hash = ''h'', c_html = ''A'', c_markdown = ''a''\<rparr>],
              projects = [\<lparr>p_id = 1, p_url = ''u'', p_title = ''T'', p_state = ''open''\<rparr>],
              project_observations =
                [\<lparr>o_id = 1, o_project_id = Some 1, o_t = 5, o_content_id = Some 1\<rparr>]\<rparr>)"
  (is "?F \<and> ?S")
proof -
  have f: ?F
    by (simp add: engine_defs)
  have s: ?S
    by (simp add: engine_defs)
  from store_all_or_nothing [OF f] store_all_or_nothing [OF s] f s show ?thesis by simp
qed

lemma new_rowid_fresh: "new_rowid ids cand = Some i \<Longrightarrow> i \<notin> set ids"
proof -
  assume a: "new_rowid ids cand = Some i"
  show ?thesis
  proof (cases "ids = []")
    case True
    then show ?thesis by simp
  next
    case False
    show ?thesis
    proof (cases "Max (set ids) < max_rowid")
      case True
      with False a have "i = Max (set ids) + 1" by (simp add: new_rowid_def)
      moreover have "i \<in> set ids \<Longrightarrow> i \<le> Max (set ids)" by simp
      ultimately show ?thesis by linarith
    next
      case b: False
      with False a show ?thesis
        by (auto simp: new_rowid_def split: option.splits if_splits)
    qed
  qed
qed

lemma select_project_id_Some:
  "select_project_id db u = Some i \<Longrightarrow> \<exists>r \<in> set (projects db). p_url r = u \<and> p_id r = i"
  by (auto simp: select_project_id_def find_Some_iff)

lemma select_project_id_None:
  "select_project_id db u = None \<Longrightarrow> r \<in> set (projects db) \<Longrightarrow> p_url r \<noteq> u"
  by (auto simp: select_project_id_def find_None_iff)

lemma select_content_id_Some:
  "select_content_id db h = Some i \<Longrightarrow> \<exists>r \<in> set (contents db). c_hash r = h \<and> c_id r = i"
  by (auto simp: select_content_id_def find_Some_iff)

lemma select_content_id_None:
  "select_content_id db h = None \<Longrightarrow> r \<in> set (contents db) \<Longrightarrow> c_hash r \<noteq> h"
  by (auto simp: select_content_id_def find_None_iff)

lemma distinct_map_eq:
  "distinct (map f xs) \<Longrightarrow> x \<in> set xs \<Longrightarrow> y \<in> set xs \<Longrightarrow> f x = f y \<Longrightarrow> x = y"
  by (metis distinct_map inj_onD)

lemma find_unique:
  "distinct (map f xs) \<Longrightarrow> x \<in> set xs \<Longrightarrow> find (\<lambda>r. f r = f x) xs = Some x"
  by (induction xs) (auto simp: image_iff)

text \<open>Under the schema's constraints REPLACE removes at most the row it puts back.\<close>

lemma replace_keeps_others:
  assumes d: "distinct (map key xs)" and u: "distinct (map uq xs)"
    and i: "(\<exists>r \<in> set xs. uq r = v \<and> key r = i) \<or> (i \<notin> key ` set xs \<and> v \<notin> uq ` set xs)"
  shows "filter (\<lambda>r. key r \<noteq> i \<and> uq r \<noteq> v) xs = filter (\<lambda>r. uq r \<noteq> v) xs"
proof (rule filter_cong [OF refl])
  fix x assume x: "x \<in> set xs"
  from i show "(key x \<noteq> i \<and> uq x \<noteq> v) = (uq x \<noteq> v)"
  proof
    assume "\<exists>r \<in> set xs. uq r = v \<and> key r = i"
    then obtain r where r: "r \<in> set xs" "uq r = v" "key r = i" by blast
    show ?thesis
    proof (cases "key x = i")
      case True
      with r x d have "x = r" by (auto dest: distinct_map_eq)
      with r show ?thesis by simp
    next
      case False
      then show ?thesis by simp
    qed
  next
    assume "i \<notin> key ` set xs \<and> v \<notin> uq ` set xs"
    with x show ?thesis by auto
  qed
qed

lemma replace_keys:
  assumes d: "distinct (map key xs)" and u: "distinct (map uq xs)"
    and i: "(\<exists>r \<in> set xs. uq r = v \<and> key r = i) \<or> (i \<notin> key ` set xs \<and> v \<notin> uq ` set xs)"
  shows "insert i (key ` set (filter (\<lambda>r. uq r \<noteq> v) xs)) = insert i (key ` set xs)"
proof -
  have "\<And>x. x \<in> set xs \<Longrightarrow> uq x = v \<Longrightarrow> key x = i"
    using i d u by (auto dest: distinct_map_eq)
  then show ?thesis by auto
qed

lemma exec_projects_shape:
  assumes w: "wf_db db" and e: "exec_projects io u title st db = Inr db'"
  shows "\<exists>i. projects db' = filter (\<lambda>r. p_url r \<noteq> u) (projects db)
                 @ [\<lparr>p_id = i, p_url = u, p_title = title, p_state = st\<rparr>]
           \<and> (case select_project_id db u of Some j \<Rightarrow> i = j
               | None \<Rightarrow> i \<notin> p_id ` set (projects db))
           \<and> insert i (p_id ` set (filter (\<lambda>r. p_url r \<noteq> u) (projects db)))
                = insert i (p_id ` set (projects db))"
proof -
  from exec_projects_row [OF e] obtain i where
    r: "projects db' = filter (\<lambda>r. p_id r \<noteq> i \<and> p_url r \<noteq> u) (projects db)
                 @ [\<lparr>p_id = i, p_url = u, p_title = title, p_state = st\<rparr>]"
    and s: "case select_project_id db u of Some j \<Rightarrow> i = j
               | None \<Rightarrow> new_rowid (map p_id (projects db)) (io_rowid io) = Some i"
    by blast
  from w have d: "distinct (map p_id (projects db))" and q: "distinct (map p_url (projects db))"
    by (simp_all add: wf_db_def)
  have c: "(\<exists>r \<in> set (projects db). p_url r = u \<and> p_id r = i)
        \<or> (i \<notin> p_id ` set (projects db) \<and> u \<notin> p_url ` set (projects db))"
  proof (cases "select_project_id db u")
    case None
    with s have "i \<notin> set (map p_id (projects db))" by (auto dest: new_rowid_fresh)
    with None show ?thesis by (auto dest: select_project_id_None)
  next
    case (Some j)
    with s show ?thesis by (auto dest: select_project_id_Some)
  qed
  have t: "case select_project_id db u of Some j \<Rightarrow> i = j
               | None \<Rightarrow> i \<notin> p_id ` set (projects db)"
    using s by (auto split: option.splits dest: new_rowid_fresh)
  from r replace_keeps_others [OF d q c] replace_keys [OF d q c] t show ?thesis
    by auto
qed

lemma exec_contents_shape:
  assumes w: "wf_db db" and e: "exec_contents io h html md db = Inr db'"
  shows "\<exists>i. contents db' = filter (\<lambda>r. c_hash r \<noteq> h) (contents db)
                 @ [\<lparr>c_id = i, c_hash = h, c_html = html, c_markdown = md\<rparr>]
           \<and> (case select_content_id db h of Some j \<Rightarrow> i = j
               | None \<Rightarrow> i \<notin> c_id ` set (contents db))
           \<and> insert i (c_id ` set (filter (\<lambda>r. c_hash r \<noteq> h) (contents db)))
                = insert i (c_id ` set (contents db))"
proof -
  from exec_contents_row [OF e] obtain i where
    r: "contents db' = filter (\<lambda>r. c_id r \<noteq> i \<and> c_hash r \<noteq> h) (contents db)
                 @ [\<lparr>c_id = i, c_hash = h, c_html = html, c_markdown = md\<rparr>]"
    and s: "case select_content_id db h of Some j \<Rightarrow> i = j
               | None \<Rightarrow> new_rowid (map c_id (contents db)) (io_rowid io) = Some i"
    by blast
  from w have d: "distinct (map c_id (contents db))" and q: "distinct (map c_hash (contents db))"
    by (simp_all add: wf_db_def)
  have c: "(\<exists>r \<in> set (contents db). c_hash r = h \<and> c_id r = i)
        \<or> (i \<notin> c_id ` set (contents db) \<and> h \<notin> c_hash ` set (contents db))"
  proof (cases "select_content_id db h")
    case None
    with s have "i \<notin> set (map c_id (contents db))" by (auto dest: new_rowid_fresh)
    with None show ?thesis by (auto dest: select_content_id_None)
  next
    case (Some j)
    with s show ?thesis by (auto dest: select_content_id_Some)
  qed
  have t: "case select_content_id db h of Some j \<Rightarrow> i = j
               | None \<Rightarrow> i \<notin> c_id ` set (contents db)"
    using s by (auto split: option.splits dest: new_rowid_fresh)
  from r replace_keeps_others [OF d q c] replace_keys [OF d q c] t show ?thesis
    by auto
qed

lemma ref_ok_mono: "ref_ok ids r \<Longrightarrow> set ids \<subseteq> set ids' \<Longrightarrow> ref_ok ids' r"
  by (auto simp: ref_ok_def split: option.splits)

lemma distinct_replace:
  assumes "distinct (map f xs)" and "\<And>x. x \<in> set xs \<Longrightarrow> P x \<Longrightarrow> f x \<noteq> f y"
  shows "distinct (map f (filter P xs @ [y]))"
proof -
  have "f y \<notin> f ` set (filter P xs)"
    using assms(2) by force
  with assms(1) show ?thesis by (simp add: distinct_map_filter)
qed

lemma exec_projects_wf:
  assumes w: "wf_db db" and e: "exec_projects io u title st db = Inr db'"
  shows "wf_db db'"
proof -
  from exec_projects_shape [OF w e] obtain i where
    r: "projects db' = filter (\<lambda>r. p_url r \<noteq> u) (projects db)
                 @ [\<lparr>p_id = i, p_url = u, p_title = title, p_state = st\<rparr>]"
    and k: "insert i (p_id ` set (filter (\<lambda>r. p_url r \<noteq> u) (projects db)))
                = insert i (p_id ` set (projects db))"
    and s: "case select_project_id db u of Some j \<Rightarrow> i = j
               | None \<Rightarrow> i \<notin> p_id ` set (projects db)"
    by blast
  from exec_projects_row [OF e] have c: "contents db' = contents db"
    and o: "project_observations db' = project_observations db" by auto
  from w have d: "distinct (map p_id (projects db))" and q: "distinct (map p_url (projects db))"
    by (simp_all add: wf_db_def)
  have ni: "\<And>x. x \<in> set (projects db) \<Longrightarrow> p_url x \<noteq> u \<Longrightarrow> p_id x \<noteq> i"
  proof (cases "select_project_id db u")
    case None
    fix x assume "x \<in> set (projects db)"
    with None s show "p_id x \<noteq> i" by auto
  next
    case (Some j)
    fix x assume x: "x \<in> set (projects db)" "p_url x \<noteq> u"
    from Some s obtain r0 where "r0 \<in> set (projects db)" "p_url r0 = u" "p_id r0 = i"
      by (auto dest: select_project_id_Some)
    with x d show "p_id x \<noteq> i" by (auto dest: distinct_map_eq)
  qed
  have d': "distinct (map p_id (projects db'))"
    unfolding r using d ni by (intro distinct_replace) auto
  have q': "distinct (map p_url (projects db'))"
    unfolding r using q by (intro distinct_replace) auto
  have sub: "set (map p_id (projects db)) \<subseteq> set (map p_id (projects db'))"
    using k unfolding r by auto
  have f': "list_all (\<lambda>ob. ref_ok (map p_id (projects db')) (o_project_id ob)
                       \<and> ref_ok (map c_id (contents db')) (o_content_id ob))
           (project_observations db')"
    unfolding list_all_iff
  proof
    fix ob assume "ob \<in> set (project_observations db')"
    with w o have a: "ref_ok (map p_id (projects db)) (o_project_id ob)"
      and b: "ref_ok (map c_id (contents db)) (o_content_id ob)"
      by (simp_all add: wf_db_def list_all_iff)
    from ref_ok_mono [OF a sub] b c
    show "ref_ok (map p_id (projects db')) (o_project_id ob)
        \<and> ref_ok (map c_id (contents db')) (o_content_id ob)" by simp
  qed
  from w d' q' f' c o show ?thesis by (simp add: wf_db_def)
qed

lemma exec_contents_wf:
  assumes w: "wf_db db" and e: "exec_contents io h html md db = Inr db'"
  shows "wf_db db'"
proof -
  from exec_contents_shape [OF w e] obtain i where
    r: "contents db' = filter (\<lambda>r. c_hash r \<noteq> h) (contents db)
                 @ [\<lparr>c_id = i, c_hash = h, c_html = html, c_markdown = md\<rparr>]"
    and k: "insert i (c_id ` set (filter (\<lambda>r. c_hash r \<noteq> h) (contents db)))
                = insert i (c_id ` set (contents db))"
    and s: "case select_content_id db h of Some j \<Rightarrow> i = j
               | None \<Rightarrow> i \<notin> c_id ` set (contents db)"
    by blast
  from exec_contents_row [OF e] have c: "projects db' = projects db"
    and o: "project_observations db' = project_observations db" by auto
  from w have d: "distinct (map c_id (contents db))" and q: "distinct (map c_hash (contents db))"
    by (simp_all add: wf_db_def)
  have ni: "\<And>x. x \<in> set (contents db) \<Longrightarrow> c_hash x \<noteq> h \<Longrightarrow> c_id x \<noteq> i"
  proof (cases "select_content_id db h")
    case None
    fix x assume "x \<in> set (contents db)"
    with None s show "c_id x \<noteq> i" by auto
  next
    case (Some j)
    fix x assume x: "x \<in> set (contents db)" "c_hash x \<noteq> h"
    from Some s obtain r0 where "r0 \<in> set (contents db)" "c_hash r0 = h" "c_id r0 = i"
      by (auto dest: select_content_id_Some)
    with x d show "c_id x \<noteq> i" by (auto dest: distinct_map_eq)
  qed
  have d': "distinct (map c_id (contents db'))"
    unfolding r using d ni by (intro distinct_replace) auto
  have q': "distinct (map c_hash (contents db'))"
    unfolding r using q by (intro distinct_replace) auto
  have sub: "set (map c_id (contents db)) \<subseteq> set (map c_id (contents db'))"
    using k unfolding r by auto
  have f': "list_all (\<lambda>ob. ref_ok (map p_id (projects db')) (o_project_id ob)
                       \<and> ref_ok (map c_id (contents db')) (o_content_id ob))
           (project_observations db')"
    unfolding list_all_iff
  proof
    fix ob assume "ob \<in> set (project_observations db')"
    with w o have a: "ref_ok (map p_id (projects db)) (o_project_id ob)"
      and b: "ref_ok (map c_id (contents db)) (o_content_id ob)"
      by (simp_all add: wf_db_def list_all_iff)
    from ref_ok_mono [OF b sub] a c
    show "ref_ok (map p_id (projects db')) (o_project_id ob)
        \<and> ref_ok (map c_id (contents db')) (o_content_id ob)" by simp
  qed
  from w d' q' f' c o show ?thesis by (simp add: wf_db_def)
qed

lemma exec_observations_wf:
  assumes w: "wf_db db" and e: "exec_observations io u t h db = Inr db'"
  shows "wf_db db'"
proof -
  from exec_observations_row [OF e] obtain i where
    r: "project_observations db' = project_observations db
                 @ [\<lparr>o_id = i, o_project_id = select_project_id db u, o_t = t,
                     o_content_id = select_content_id db h\<rparr>]"
    and n: "new_rowid (map o_id (project_observations db)) (io_rowid io) = Some i"
    and c: "contents db' = contents db" and p: "projects db' = projects db"
    by blast
  from e have k: "ref_ok (map p_id (projects db)) (select_project_id db u)"
     "ref_ok (map c_id (contents db)) (select_content_id db h)"
    by (auto simp: exec_observations_def Let_def split: if_splits option.splits)
  from n have "i \<notin> set (map o_id (project_observations db))" by (rule new_rowid_fresh)
  with w r c p k show ?thesis by (auto simp: wf_db_def)
qed

lemma store_wf:
  assumes w: "wf_db db" and s: "store env p db = (r, db')"
  shows "wf_db db'"
proof (cases r)
  case (Some e)
  with s w show ?thesis by (auto dest: store_failure)
next
  case None
  with s obtain tx1 tx2 where
    e1: "exec_contents (contents_io env) (HTMLSum p) (HTML p) (Markdown p) db = Inr tx1" and
    e2: "exec_projects (projects_io env) (URL p) (Title p) (State p) tx1 = Inr tx2" and
    e3: "exec_observations (observations_io env) (URL p) (now env) (HTMLSum p) tx2 = Inr db'"
    using store_success by blast
  from exec_observations_wf [OF exec_projects_wf [OF exec_contents_wf [OF w e1] e2] e3]
  show ?thesis .
qed

lemma wf_empty_db: "wf_db empty_db"
  by (simp add: wf_db_def empty_db_def)

lemma filter_unique_after_replace:
  "uq new = v \<Longrightarrow>
   filter (\<lambda>r. uq r = v) (filter (\<lambda>r. key r \<noteq> i \<and> uq r \<noteq> v) xs @ [new]) = [new]"
  by (induction xs) auto

lemma filter_other_after_replace:
  "uq new = v \<Longrightarrow> v' \<noteq> v \<Longrightarrow>
   filter (\<lambda>r. uq r = v') (filter (\<lambda>r. uq r \<noteq> v) xs @ [new]) = filter (\<lambda>r. uq r = v') xs"
  by (induction xs) auto

lemma find_other_after_replace:
  "uq new = v \<Longrightarrow> v' \<noteq> v \<Longrightarrow>
   find (\<lambda>r. uq r = v') (filter (\<lambda>r. uq r \<noteq> v) xs @ [new]) = find (\<lambda>r. uq r = v') xs"
  by (induction xs) auto

lemma distinct_filter_le1:
  "distinct (map f xs) \<Longrightarrow> length (filter (\<lambda>r. f r = v) xs) \<le> 1"
  by (induction xs) (auto simp: filter_empty_conv image_iff)

text \<open>
  C5. A successful \<^verbatim>\<open>projects\<close> statement for a URL leaves exactly one row for that URL,
  holding the title and state just bound, under the id the URL had before, if it had one. On a
  database that satisfies the schema the result satisfies it again, so no URL has more than one
  row, and the rows of every other URL are as they were.
\<close>

theorem upsert_one_row_per_url:
  assumes e: "exec_projects io u title st db = Inr db'"
  shows "(\<exists>i. filter (\<lambda>r. p_url r = u) (projects db')
               = [\<lparr>p_id = i, p_url = u, p_title = title, p_state = st\<rparr>]
            \<and> (\<forall>j. select_project_id db u = Some j \<longrightarrow> i = j))
    \<and> (wf_db db \<longrightarrow>
          wf_db db'
        \<and> (\<forall>u'. length (filter (\<lambda>r. p_url r = u') (projects db')) \<le> 1)
        \<and> (\<forall>u'. u' \<noteq> u \<longrightarrow>
              filter (\<lambda>r. p_url r = u') (projects db')
                = filter (\<lambda>r. p_url r = u') (projects db)))"
proof -
  from exec_projects_row [OF e] obtain i where
    r: "projects db' = filter (\<lambda>r. p_id r \<noteq> i \<and> p_url r \<noteq> u) (projects db)
                 @ [\<lparr>p_id = i, p_url = u, p_title = title, p_state = st\<rparr>]"
    and s: "case select_project_id db u of Some j \<Rightarrow> i = j
               | None \<Rightarrow> new_rowid (map p_id (projects db)) (io_rowid io) = Some i"
    by blast
  have a: "filter (\<lambda>r. p_url r = u) (projects db')
               = [\<lparr>p_id = i, p_url = u, p_title = title, p_state = st\<rparr>]"
    unfolding r by (rule filter_unique_after_replace) simp
  have b: "\<forall>j. select_project_id db u = Some j \<longrightarrow> i = j"
    using s by auto
  have c: "wf_db db'
        \<and> (\<forall>u'. length (filter (\<lambda>r. p_url r = u') (projects db')) \<le> 1)
        \<and> (\<forall>u'. u' \<noteq> u \<longrightarrow>
              filter (\<lambda>r. p_url r = u') (projects db')
                = filter (\<lambda>r. p_url r = u') (projects db))"
    if w: "wf_db db"
  proof -
    have w': "wf_db db'" using w e by (rule exec_projects_wf)
    then have "distinct (map p_url (projects db'))"
      by (simp add: wf_db_def)
    then have le: "\<forall>u'. length (filter (\<lambda>r. p_url r = u') (projects db')) \<le> 1"
      by (blast intro: distinct_filter_le1)
    from exec_projects_shape [OF w e] obtain k where
      k: "projects db' = filter (\<lambda>r. p_url r \<noteq> u) (projects db)
                   @ [\<lparr>p_id = k, p_url = u, p_title = title, p_state = st\<rparr>]"
      by blast
    have "\<forall>u'. u' \<noteq> u \<longrightarrow>
            filter (\<lambda>r. p_url r = u') (projects db') = filter (\<lambda>r. p_url r = u') (projects db)"
    proof (intro allI impI)
      fix u' :: string assume "u' \<noteq> u"
      then show "filter (\<lambda>r. p_url r = u') (projects db')
          = filter (\<lambda>r. p_url r = u') (projects db)"
        unfolding k by (intro filter_other_after_replace) simp_all
    qed
    with w' le show ?thesis by blast
  qed
  from a b c show ?thesis by blast
qed

theorem upsert_one_row_per_url_witness:
  "wf_db \<lparr>contents = [], projects = [\<lparr>p_id = 1, p_url = ''u'', p_title = ''T'', p_state = ''open''\<rparr>,
                                      \<lparr>p_id = 2, p_url = ''v'', p_title = ''V'', p_state = ''open''\<rparr>],
          project_observations = []\<rparr>
   \<and> exec_projects ok_io ''u'' ''T2'' ''closed''
       \<lparr>contents = [], projects = [\<lparr>p_id = 1, p_url = ''u'', p_title = ''T'', p_state = ''open''\<rparr>,
                                      \<lparr>p_id = 2, p_url = ''v'', p_title = ''V'', p_state = ''open''\<rparr>],
          project_observations = []\<rparr>
     = Inr \<lparr>contents = [], projects = [\<lparr>p_id = 2, p_url = ''v'', p_title = ''V'', p_state = ''open''\<rparr>,
                                      \<lparr>p_id = 1, p_url = ''u'', p_title = ''T2'', p_state = ''closed''\<rparr>],
          project_observations = []\<rparr>"
  (is "?W \<and> ?E")
proof -
  have w: ?W by (simp add: wf_db_def)
  have e: ?E by (simp add: engine_defs)
  from upsert_one_row_per_url [OF e] w e show ?thesis by simp
qed

section \<open>Dedup\<close>

lemma put_once:
  assumes "put ext io p db = Inr (fp, db')"
  shows "fp = digest ext (HTML p)
    \<and> (\<exists>i. filter (\<lambda>r. c_hash r = digest ext (HTML p)) (contents db')
          = [\<lparr>c_id = i, c_hash = digest ext (HTML p), c_html = HTML p, c_markdown = Markdown p\<rparr>])"
proof -
  from assms have f: "fp = digest ext (HTML p)"
    and e: "exec_contents io (digest ext (HTML p)) (HTML p) (Markdown p) db = Inr db'"
    by (auto simp: put_def fingerprint_def Let_def split: sum.splits)
  from exec_contents_row [OF e] obtain i where
    "contents db' = filter (\<lambda>r. c_id r \<noteq> i \<and> c_hash r \<noteq> digest ext (HTML p)) (contents db)
        @ [\<lparr>c_id = i, c_hash = digest ext (HTML p), c_html = HTML p, c_markdown = Markdown p\<rparr>]"
    by blast
  then have "filter (\<lambda>r. c_hash r = digest ext (HTML p)) (contents db')
          = [\<lparr>c_id = i, c_hash = digest ext (HTML p), c_html = HTML p, c_markdown = Markdown p\<rparr>]"
    by (simp add: filter_unique_after_replace [where uq = c_hash])
  with f show ?thesis by blast
qed

text \<open>
  C2. After \<open>N \<ge> 1\<close> successful puts of the same page there is exactly one \<^verbatim>\<open>contents\<close> row
  whose hash is the digest of the page's HTML, and every put returned that digest.
\<close>

theorem put_many_one_row:
  assumes "put_many ext ios p db = Inr (fps, db')" and "ios \<noteq> []"
  shows "length (filter (\<lambda>r. c_hash r = digest ext (HTML p)) (contents db')) = 1
    \<and> fps = replicate (length ios) (digest ext (HTML p))"
  using assms
proof (induction ios arbitrary: db fps)
  case Nil
  then show ?case by simp
next
  case (Cons io ios)
  from Cons.prems(1) obtain fp db1 fps1 where
    p1: "put ext io p db = Inr (fp, db1)" and
    pm: "put_many ext ios p db1 = Inr (fps1, db')" and
    fps: "fps = fp # fps1"
    by (auto split: sum.splits prod.splits)
  from put_once [OF p1] have fp: "fp = digest ext (HTML p)"
    and one: "length (filter (\<lambda>r. c_hash r = digest ext (HTML p)) (contents db1)) = 1"
    by auto
  show ?case
  proof (cases "ios = []")
    case True
    with pm have "db' = db1" "fps1 = []" by simp_all
    with one fp fps True show ?thesis by simp
  next
    case False
    from Cons.IH [OF pm False] fp fps show ?thesis by simp
  qed
qed

theorem put_many_one_row_witness:
  "put_many sample_ext [ok_io, ok_io, ok_io]
     \<lparr>Title = [], State = [], URL = [], HTMLSum = [], HTML = ''X'', Markdown = ''x''\<rparr> empty_db
   = Inr ([''#X'', ''#X'', ''#X''],
          \<lparr>contents = [\<lparr>c_id = 1, c_hash = ''#X'', c_html = ''X'', c_markdown = ''x''\<rparr>],
           projects = [], project_observations = []\<rparr>)
   \<and> [ok_io, ok_io, ok_io] \<noteq> []"
  (is "?P \<and> ?N")
proof -
  have p: ?P
    by (simp add: put_def fingerprint_def sample_ext_def engine_defs)
  have n: ?N by simp
  from put_many_one_row [OF p n] p show ?thesis by simp
qed

section \<open>Overwriting\<close>

lemma exec_contents_succeeds:
  assumes w: "wf_db db" and ok: "io_ok io"
    and r: "select_content_id db h = Some i"
  shows "\<exists>db'. exec_contents io h html md db = Inr db'"
proof -
  from w have d: "distinct (map c_id (contents db))" and q: "distinct (map c_hash (contents db))"
    by (simp_all add: wf_db_def)
  from r have c: "(\<exists>r \<in> set (contents db). c_hash r = h \<and> c_id r = i)
        \<or> (i \<notin> c_id ` set (contents db) \<and> h \<notin> c_hash ` set (contents db))"
    by (auto dest: select_content_id_Some)
  have "insert i (c_id ` set (filter (\<lambda>r. c_id r \<noteq> i \<and> c_hash r \<noteq> h) (contents db)))
      = insert i (c_id ` set (contents db))"
    using replace_keeps_others [OF d q c] replace_keys [OF d q c] by simp
  then have "\<not> dangling (map c_id (contents db))
      (map c_id (filter (\<lambda>r. c_id r \<noteq> i \<and> c_hash r \<noteq> h) (contents db)
                 @ [\<lparr>c_id = i, c_hash = h, c_html = html, c_markdown = md\<rparr>]))
      (map o_content_id (project_observations db))"
    by (auto simp: dangling_def list_ex_iff)
  with ok r show ?thesis by (simp add: exec_contents_def Let_def)
qed

text \<open>
  C3, as the code has it. When a \<^verbatim>\<open>contents\<close> row exists for a fingerprint, a later
  \<^verbatim>\<open>contents\<close> statement with that fingerprint succeeds whenever the engine meets no I/O
  failure, and the one row of that fingerprint then has the old id and the HTML and markdown
  just bound: the same bytes leave the row as it was, other bytes replace it. Nothing compares
  the bytes with the stored ones.
\<close>

theorem put_replaces_row:
  assumes w: "wf_db db" and ok: "io_ok io"
    and r: "\<lparr>c_id = i, c_hash = h, c_html = html0, c_markdown = md0\<rparr> \<in> set (contents db)"
  shows "\<exists>db'. exec_contents io h html md db = Inr db'
     \<and> filter (\<lambda>r. c_hash r = h) (contents db')
         = [\<lparr>c_id = i, c_hash = h, c_html = html, c_markdown = md\<rparr>]"
proof -
  from w have q: "distinct (map c_hash (contents db))" by (simp add: wf_db_def)
  from find_unique [OF q r] have s: "select_content_id db h = Some i"
    by (simp add: select_content_id_def)
  from exec_contents_succeeds [OF w ok s] obtain db' where
    e: "exec_contents io h html md db = Inr db'" by blast
  from exec_contents_row [OF e] s have
    "contents db' = filter (\<lambda>r. c_id r \<noteq> i \<and> c_hash r \<noteq> h) (contents db)
        @ [\<lparr>c_id = i, c_hash = h, c_html = html, c_markdown = md\<rparr>]"
    by auto
  then have "filter (\<lambda>r. c_hash r = h) (contents db')
         = [\<lparr>c_id = i, c_hash = h, c_html = html, c_markdown = md\<rparr>]"
    by (simp add: filter_unique_after_replace [where uq = c_hash])
  with e show ?thesis by blast
qed

theorem put_replaces_row_witness:
  "wf_db db_A \<and> io_ok ok_io
   \<and> \<lparr>c_id = 1, c_hash = ''h'', c_html = ''A'', c_markdown = ''a''\<rparr> \<in> set (contents db_A)
   \<and> (\<exists>db'. exec_contents ok_io ''h'' ''A'' ''a'' db_A = Inr db'
        \<and> filter (\<lambda>r. c_hash r = ''h'') (contents db')
            = [\<lparr>c_id = 1, c_hash = ''h'', c_html = ''A'', c_markdown = ''a''\<rparr>])"
proof -
  have w: "wf_db db_A" by (simp add: wf_db_def db_A_def)
  have k: "io_ok ok_io" by (simp add: ok_io_def)
  have r: "\<lparr>c_id = 1, c_hash = ''h'', c_html = ''A'', c_markdown = ''a''\<rparr> \<in> set (contents db_A)"
    by (simp add: db_A_def)
  from put_replaces_row [OF w k r, of "''A''" "''a''"] w k r show ?thesis by simp
qed

text \<open>
  A row with hash \<open>h\<close> holds the HTML \<open>A\<close>; a unit that presents the HTML \<open>B\<close> under the same
  hash returns no error and the row holds \<open>B\<close>.
\<close>

theorem put_overwrites_counterexample:
  "store (ok_env 9)
     \<lparr>Title = ''T'', State = ''open'', URL = ''u'', HTMLSum = ''h'', HTML = ''B'',
      Markdown = ''b''\<rparr> db_A
     = (None,
        \<lparr>contents = [\<lparr>c_id = 1, c_hash = ''h'', c_html = ''B'', c_markdown = ''b''\<rparr>],
         projects = [\<lparr>p_id = 1, p_url = ''u'', p_title = ''T'', p_state = ''open''\<rparr>],
         project_observations =
           [\<lparr>o_id = 1, o_project_id = Some 1, o_t = 9, o_content_id = Some 1\<rparr>]\<rparr>)"
  by (simp add: db_A_def engine_defs)

section \<open>What a unit leaves behind\<close>

lemma store_rows:
  assumes s: "store env p db = (None, db')"
  shows "\<exists>pi ci oi.
      filter (\<lambda>r. p_url r = URL p) (projects db')
        = [\<lparr>p_id = pi, p_url = URL p, p_title = Title p, p_state = State p\<rparr>]
    \<and> filter (\<lambda>r. c_hash r = HTMLSum p) (contents db')
        = [\<lparr>c_id = ci, c_hash = HTMLSum p, c_html = HTML p, c_markdown = Markdown p\<rparr>]
    \<and> project_observations db' = project_observations db
        @ [\<lparr>o_id = oi, o_project_id = Some pi, o_t = now env, o_content_id = Some ci\<rparr>]
    \<and> (\<forall>j. select_project_id db (URL p) = Some j \<longrightarrow> pi = j)"
proof -
  from s obtain tx1 tx2 where
    e1: "exec_contents (contents_io env) (HTMLSum p) (HTML p) (Markdown p) db = Inr tx1" and
    e2: "exec_projects (projects_io env) (URL p) (Title p) (State p) tx1 = Inr tx2" and
    e3: "exec_observations (observations_io env) (URL p) (now env) (HTMLSum p) tx2 = Inr db'"
    using store_success by blast
  from exec_contents_row [OF e1] obtain ci where
    c1: "contents tx1 = filter (\<lambda>r. c_id r \<noteq> ci \<and> c_hash r \<noteq> HTMLSum p) (contents db)
        @ [\<lparr>c_id = ci, c_hash = HTMLSum p, c_html = HTML p, c_markdown = Markdown p\<rparr>]"
    and p1: "projects tx1 = projects db"
    and o1: "project_observations tx1 = project_observations db"
    by blast
  from exec_projects_row [OF e2] obtain pi where
    p2: "projects tx2 = filter (\<lambda>r. p_id r \<noteq> pi \<and> p_url r \<noteq> URL p) (projects tx1)
        @ [\<lparr>p_id = pi, p_url = URL p, p_title = Title p, p_state = State p\<rparr>]"
    and s2: "case select_project_id tx1 (URL p) of Some j \<Rightarrow> pi = j
               | None \<Rightarrow> new_rowid (map p_id (projects tx1)) (io_rowid (projects_io env)) = Some pi"
    and c2: "contents tx2 = contents tx1"
    and o2: "project_observations tx2 = project_observations tx1"
    by blast
  from exec_observations_row [OF e3] obtain oi where
    o3: "project_observations db' = project_observations tx2
         @ [\<lparr>o_id = oi, o_project_id = select_project_id tx2 (URL p), o_t = now env,
             o_content_id = select_content_id tx2 (HTMLSum p)\<rparr>]"
    and c3: "contents db' = contents tx2" and p3: "projects db' = projects tx2"
    by blast
  have fc: "find (\<lambda>r. c_hash r = HTMLSum p) (contents tx2)
      = Some \<lparr>c_id = ci, c_hash = HTMLSum p, c_html = HTML p, c_markdown = Markdown p\<rparr>"
    unfolding c2 c1 by (rule find_filter_append_new) auto
  have fp: "find (\<lambda>r. p_url r = URL p) (projects tx2)
      = Some \<lparr>p_id = pi, p_url = URL p, p_title = Title p, p_state = State p\<rparr>"
    unfolding p2 by (rule find_filter_append_new) auto
  have a: "filter (\<lambda>r. p_url r = URL p) (projects db')
        = [\<lparr>p_id = pi, p_url = URL p, p_title = Title p, p_state = State p\<rparr>]"
    unfolding p3 p2 by (rule filter_unique_after_replace) simp
  have b: "filter (\<lambda>r. c_hash r = HTMLSum p) (contents db')
        = [\<lparr>c_id = ci, c_hash = HTMLSum p, c_html = HTML p, c_markdown = Markdown p\<rparr>]"
    unfolding c3 c2 c1 by (rule filter_unique_after_replace) simp
  have c: "project_observations db' = project_observations db
        @ [\<lparr>o_id = oi, o_project_id = Some pi, o_t = now env, o_content_id = Some ci\<rparr>]"
    using o3 o2 o1 fc fp by (simp add: select_project_id_def select_content_id_def)
  have d: "\<forall>j. select_project_id db (URL p) = Some j \<longrightarrow> pi = j"
    using s2 p1 by (auto simp: select_project_id_def)
  from a b c d show ?thesis by blast
qed

text \<open>
  C4, as the code has it. A \<^verbatim>\<open>projects\<close> row has an id, a URL, a title and a state, and no
  fingerprint. After a successful unit the one row of the URL holds the unit's title and state
  under the id the URL had before, and the content most recently observed is named by the last
  observation only: it references that row and the one \<^verbatim>\<open>contents\<close> row whose hash is the
  unit's fingerprint.
\<close>

theorem store_points_by_observation:
  assumes "store env p db = (None, db')"
  shows "\<exists>pi ci oi.
      filter (\<lambda>r. p_url r = URL p) (projects db')
        = [\<lparr>p_id = pi, p_url = URL p, p_title = Title p, p_state = State p\<rparr>]
    \<and> (\<forall>j. select_project_id db (URL p) = Some j \<longrightarrow> pi = j)
    \<and> last (project_observations db')
        = \<lparr>o_id = oi, o_project_id = Some pi, o_t = now env, o_content_id = Some ci\<rparr>
    \<and> filter (\<lambda>r. c_hash r = HTMLSum p) (contents db')
        = [\<lparr>c_id = ci, c_hash = HTMLSum p, c_html = HTML p, c_markdown = Markdown p\<rparr>]"
proof -
  from store_rows [OF assms] obtain pi ci oi where
    a: "filter (\<lambda>r. p_url r = URL p) (projects db')
        = [\<lparr>p_id = pi, p_url = URL p, p_title = Title p, p_state = State p\<rparr>]"
    and b: "filter (\<lambda>r. c_hash r = HTMLSum p) (contents db')
        = [\<lparr>c_id = ci, c_hash = HTMLSum p, c_html = HTML p, c_markdown = Markdown p\<rparr>]"
    and c: "project_observations db' = project_observations db
        @ [\<lparr>o_id = oi, o_project_id = Some pi, o_t = now env, o_content_id = Some ci\<rparr>]"
    and d: "\<forall>j. select_project_id db (URL p) = Some j \<longrightarrow> pi = j"
    by blast
  from c have "last (project_observations db')
        = \<lparr>o_id = oi, o_project_id = Some pi, o_t = now env, o_content_id = Some ci\<rparr>"
    by simp
  with a b d show ?thesis by blast
qed

lemma store_page_A: "store (ok_env 1) page_A empty_db = (None, db_1)"
  by (simp add: page_A_def db_1_def engine_defs)

lemma store_page_B: "store (ok_env 2) page_B db_1 = (None, db_2)"
  by (simp add: page_B_def db_1_def db_2_def engine_defs)

theorem store_points_by_observation_witness:
  "store (ok_env 2) page_B db_1 = (None, db_2)
   \<and> last (project_observations db_2)
       = \<lparr>o_id = 2, o_project_id = Some 1, o_t = 2, o_content_id = Some 2\<rparr>"
proof -
  have s: "store (ok_env 2) page_B db_1 = (None, db_2)" by (rule store_page_B)
  from store_points_by_observation [OF s] s show ?thesis
    by (simp add: db_2_def)
qed

text \<open>
  Two units for the same URL with different fingerprints: the \<^verbatim>\<open>projects\<close> table after the
  second is the table after the first.
\<close>

theorem project_row_without_fingerprint_counterexample:
  "store (ok_env 1) page_A empty_db = (None, db_1)
   \<and> store (ok_env 2) page_B db_1 = (None, db_2)
   \<and> HTMLSum page_A \<noteq> HTMLSum page_B
   \<and> projects db_2 = projects db_1"
  using store_page_A store_page_B by (simp add: page_A_def page_B_def db_1_def db_2_def)

section \<open>Counting observations\<close>

lemma count_refs_absent:
  assumes "list_all (\<lambda>ob. ref_ok ids (o_project_id ob) \<and> Q ob) obs" and "i \<notin> set ids"
  shows "filter (\<lambda>ob. o_project_id ob = Some i) obs = []"
  using assms by (auto simp: filter_empty_conv list_all_iff ref_ok_def split: option.splits)

lemma store_obs_count:
  assumes w: "wf_db db" and s: "store env p db = (None, db')"
  shows "obs_count db' u = obs_count db u + (if u = URL p then 1 else 0)"
proof -
  from s obtain tx1 tx2 where
    e1: "exec_contents (contents_io env) (HTMLSum p) (HTML p) (Markdown p) db = Inr tx1" and
    e2: "exec_projects (projects_io env) (URL p) (Title p) (State p) tx1 = Inr tx2" and
    e3: "exec_observations (observations_io env) (URL p) (now env) (HTMLSum p) tx2 = Inr db'"
    using store_success by blast
  have w1: "wf_db tx1" using w e1 by (rule exec_contents_wf)
  from exec_contents_row [OF e1] have p1: "projects tx1 = projects db"
    and o1: "project_observations tx1 = project_observations db" by auto
  have q1: "select_project_id tx1 (URL p) = select_project_id db (URL p)"
    by (simp add: select_project_id_def p1)
  from exec_projects_shape [OF w1 e2] obtain pi where
    p2': "projects tx2 = filter (\<lambda>r. p_url r \<noteq> URL p) (projects tx1)
        @ [\<lparr>p_id = pi, p_url = URL p, p_title = Title p, p_state = State p\<rparr>]"
    and s2': "case select_project_id tx1 (URL p) of Some j \<Rightarrow> pi = j
               | None \<Rightarrow> pi \<notin> p_id ` set (projects tx1)"
    by blast
  have p2: "projects tx2 = filter (\<lambda>r. p_url r \<noteq> URL p) (projects db)
        @ [\<lparr>p_id = pi, p_url = URL p, p_title = Title p, p_state = State p\<rparr>]"
    using p2' p1 by simp
  have s2: "case select_project_id db (URL p) of Some j \<Rightarrow> pi = j
               | None \<Rightarrow> pi \<notin> p_id ` set (projects db)"
    using s2' q1 p1 by (auto split: option.splits)
  from exec_projects_row [OF e2] have
    o2: "project_observations tx2 = project_observations tx1" by auto
  have fp: "select_project_id tx2 (URL p) = Some pi"
    unfolding select_project_id_def p2
    by (simp add: find_filter_append_new [where P = "\<lambda>r. p_url r = URL p"])
  from exec_observations_row [OF e3] obtain oi where
    o3: "project_observations db' = project_observations db
         @ [\<lparr>o_id = oi, o_project_id = Some pi, o_t = now env,
             o_content_id = select_content_id tx2 (HTMLSum p)\<rparr>]"
    and p3: "projects db' = projects tx2"
    using fp o1 o2 by auto
  from w have d: "distinct (map p_id (projects db))"
    and fk: "list_all (\<lambda>ob. ref_ok (map p_id (projects db)) (o_project_id ob)
                       \<and> ref_ok (map c_id (contents db)) (o_content_id ob))
           (project_observations db)"
    by (simp_all add: wf_db_def)
  show ?thesis
  proof (cases "u = URL p")
    case True
    have sel': "select_project_id db' u = Some pi"
      using fp p3 True by (simp add: select_project_id_def)
    have "length (filter (\<lambda>ob. o_project_id ob = Some pi) (project_observations db))
        = obs_count db u"
    proof (cases "select_project_id db (URL p)")
      case None
      with s2 have "pi \<notin> set (map p_id (projects db))" by simp
      from count_refs_absent [OF fk this] None True show ?thesis
        by (simp add: obs_count_def)
    next
      case (Some j)
      with s2 True show ?thesis by (simp add: obs_count_def)
    qed
    with sel' o3 True show ?thesis by (simp add: obs_count_def)
  next
    case False
    have sel': "select_project_id db' u = select_project_id db u"
      unfolding select_project_id_def p3 p2 using False
      by (simp add: find_other_after_replace [where uq = p_url])
    show ?thesis
    proof (cases "select_project_id db u")
      case None
      with sel' False show ?thesis by (simp add: obs_count_def)
    next
      case (Some i)
      then obtain r where r: "r \<in> set (projects db)" "p_url r = u" "p_id r = i"
        by (auto dest: select_project_id_Some)
      have "i \<noteq> pi"
      proof (cases "select_project_id db (URL p)")
        case None
        with s2 r show ?thesis by auto
      next
        case (Some j)
        with s2 obtain r' where "r' \<in> set (projects db)" "p_url r' = URL p" "p_id r' = pi"
          by (auto dest: select_project_id_Some)
        with r False d show ?thesis by (auto dest: distinct_map_eq)
      qed
      with Some sel' o3 False show ?thesis by (simp add: obs_count_def)
    qed
  qed
qed

lemma store_each_obs_count:
  assumes "wf_db db" and "store_each units db = (ok, db')"
  shows "obs_count db' u = obs_count db u + count_list ok u"
  using assms
proof (induction units arbitrary: db ok)
  case Nil
  then show ?case by simp
next
  case (Cons a units)
  obtain env p where a: "a = (env, p)" by (cases a)
  obtain r db1 where s: "store env p db = (r, db1)" by (cases "store env p db")
  have w1: "wf_db db1" using Cons.prems(1) s by (rule store_wf)
  show ?case
  proof (cases r)
    case None
    with Cons.prems(2) a s obtain ok1 where
      t: "store_each units db1 = (ok1, db')" and k: "ok = URL p # ok1"
      by (auto split: prod.splits)
    from store_obs_count [OF Cons.prems(1)] s None
    have "obs_count db1 u = obs_count db u + (if u = URL p then 1 else 0)" by simp
    with Cons.IH [OF w1 t] k show ?thesis by simp
  next
    case (Some e)
    with s have "db1 = db" by (auto dest: store_failure)
    with Cons.prems(2) a s Some have "store_each units db = (ok, db')" by simp
    with Cons.IH [OF Cons.prems(1)] show ?thesis by simp
  qed
qed

text \<open>
  C6. A successful observation statement appends one row and leaves the other tables alone; a
  successful unit appends exactly one observation to the log it found; so over any history of
  units the number of observations of a URL's project grows by the number of successful units
  for that URL, whatever their fingerprints, and from the empty database it equals that number.
\<close>

theorem observations_append_only:
  "(exec_observations io u t h db = Inr db' \<longrightarrow>
      (\<exists>row. project_observations db' = project_observations db @ [row])
      \<and> contents db' = contents db \<and> projects db' = projects db)
   \<and> (store env p db = (None, db') \<longrightarrow>
      (\<exists>row. project_observations db' = project_observations db @ [row]))
   \<and> (wf_db db \<longrightarrow> store_each units db = (ok, db') \<longrightarrow>
        obs_count db' u = obs_count db u + count_list ok u)
   \<and> (store_each units empty_db = (ok, db') \<longrightarrow> obs_count db' u = count_list ok u)"
proof (intro conjI impI)
  assume "exec_observations io u t h db = Inr db'"
  from exec_observations_row [OF this]
  show "\<exists>row. project_observations db' = project_observations db @ [row]"
    and "contents db' = contents db" and "projects db' = projects db"
    by auto
next
  assume "store env p db = (None, db')"
  from store_rows [OF this]
  show "\<exists>row. project_observations db' = project_observations db @ [row]" by blast
next
  assume "wf_db db" and "store_each units db = (ok, db')"
  then show "obs_count db' u = obs_count db u + count_list ok u"
    by (rule store_each_obs_count)
next
  assume "store_each units empty_db = (ok, db')"
  with wf_empty_db have "obs_count db' u = obs_count empty_db u + count_list ok u"
    by (rule store_each_obs_count)
  then show "obs_count db' u = count_list ok u"
    by (simp add: obs_count_def select_project_id_def empty_db_def)
qed

theorem observations_append_only_witness:
  "exec_observations ok_io ''u'' 3 ''hA'' db_1 = Inr db_3
   \<and> store (ok_env 3) page_A db_1 = (None, db_3)
   \<and> wf_db empty_db
   \<and> store_each [(ok_env 1, page_A), ((ok_env 2)\<lparr>commit_io := False\<rparr>, page_A),
                  (ok_env 3, page_A)] empty_db = ([''u'', ''u''], db_3)
   \<and> obs_count db_3 ''u'' = 2"
  (is "?A \<and> ?B \<and> ?C \<and> ?D \<and> ?E")
proof -
  have a: ?A by (simp add: db_1_def db_3_def engine_defs)
  have b: ?B by (simp add: page_A_def db_1_def db_3_def engine_defs)
  have c: ?C by (rule wf_empty_db)
  have f: "store ((ok_env 2)\<lparr>commit_io := False\<rparr>) page_A db_1 = (Some StorageError, db_1)"
    by (simp add: page_A_def db_1_def engine_defs)
  have d: ?D using store_page_A f b by (simp add: page_A_def)
  have "obs_count db_3 ''u'' = obs_count empty_db ''u'' + count_list [''u'', ''u''] ''u''"
    using c d
      observations_append_only [where io = ok_io and u = "''u''" and t = 3 and h = "''hA''"
        and db = empty_db and db' = db_3 and env = "ok_env 3" and p = page_A
        and units = "[(ok_env 1, page_A), ((ok_env 2)\<lparr>commit_io := False\<rparr>, page_A),
                      (ok_env 3, page_A)]"
        and ok = "[''u'', ''u'']"]
    by blast
  then have e: ?E
    by (simp add: obs_count_def select_project_id_def empty_db_def)
  have "\<exists>row. project_observations db_3 = project_observations db_1 @ [row]"
    using a b
      observations_append_only [where io = ok_io and u = "''u''" and t = 3 and h = "''hA''"
        and db = db_1 and db' = db_3 and env = "ok_env 3" and p = page_A]
    by blast
  with a b c d e show ?thesis by simp
qed

section \<open>Discovery filter\<close>

lemma discover_filter:
  "discover only tiles found
     = found @ filter (\<lambda>p. URL p \<noteq> landing_page \<and> (only = [] \<or> URL p \<in> set only)) tiles"
  by (induction tiles arbitrary: found) auto

text \<open>
  C8. With a non-empty allow-list the loop keeps exactly the tiles whose URL is in the list and
  is not the landing page; with an empty one it keeps every tile but the landing page; the
  landing page is never kept.
\<close>

theorem discover_intersection:
  "(only \<noteq> [] \<longrightarrow>
      discover only tiles [] = filter (\<lambda>p. URL p \<in> set only \<and> URL p \<noteq> landing_page) tiles
      \<and> URL ` set (discover only tiles []) = (URL ` set tiles \<inter> set only) - {landing_page})
   \<and> (only = [] \<longrightarrow>
      discover only tiles [] = filter (\<lambda>p. URL p \<noteq> landing_page) tiles
      \<and> URL ` set (discover only tiles []) = URL ` set tiles - {landing_page})
   \<and> landing_page \<notin> URL ` set (discover only tiles [])"
proof -
  have f: "discover only tiles []
     = filter (\<lambda>p. URL p \<noteq> landing_page \<and> (only = [] \<or> URL p \<in> set only)) tiles"
    by (simp add: discover_filter)
  have a: "only \<noteq> [] \<Longrightarrow>
      discover only tiles [] = filter (\<lambda>p. URL p \<in> set only \<and> URL p \<noteq> landing_page) tiles"
    unfolding f by (rule filter_cong) auto
  have b: "only = [] \<Longrightarrow> discover only tiles [] = filter (\<lambda>p. URL p \<noteq> landing_page) tiles"
    unfolding f by simp
  have c: "only \<noteq> [] \<Longrightarrow>
      URL ` set (discover only tiles []) = (URL ` set tiles \<inter> set only) - {landing_page}"
    unfolding f by auto
  have d: "only = [] \<Longrightarrow> URL ` set (discover only tiles []) = URL ` set tiles - {landing_page}"
    unfolding f by auto
  have e: "landing_page \<notin> URL ` set (discover only tiles [])"
    unfolding f by auto
  from a b c d e show ?thesis by blast
qed

theorem discover_intersection_witness:
  "[landing_page, ''https://x/a''] \<noteq> []
   \<and> discover [landing_page, ''https://x/a'']
        [tile ''https://x/a'', tile landing_page, tile ''https://x/b''] []
      = [tile ''https://x/a'']
   \<and> discover [] [tile ''https://x/a'', tile landing_page, tile ''https://x/b''] []
      = [tile ''https://x/a'', tile ''https://x/b'']"
proof -
  have n: "[landing_page, ''https://x/a''] \<noteq> []" by simp
  from discover_intersection [of "[landing_page, ''https://x/a'']"
      "[tile ''https://x/a'', tile landing_page, tile ''https://x/b'']"]
    discover_intersection [of "[]"
      "[tile ''https://x/a'', tile landing_page, tile ''https://x/b'']"]
  show ?thesis
    by (simp add: tile_def landing_page_def)
qed

section \<open>Links and pages\<close>

lemma head_Node: "head (Node t d a cs) = (t, d, a)"
  by (simp add: head_def)

lemma matches_head:
  "matches s (Node t d a cs) = matches s (Node t d a [])"
  by (cases s) (simp_all add: has_class_def match_attribute_def)

lemma subtree_update_all:
  "map head (subtree (update_all s f n))
     = map (\<lambda>(t, d, a). (t, d, if matches s (Node t d a []) then f a else a))
         (map head (subtree n))"
proof (induction n)
  case (Node t d a cs)
  have "map head (concat (map subtree (map (update_all s f) cs)))
      = map (\<lambda>(t, d, a). (t, d, if matches s (Node t d a []) then f a else a))
          (map head (concat (map subtree cs)))"
    using Node.IH by (induction cs) (simp_all)
  then show ?case
    using matches_head [of s t d a cs] by (simp add: head_Node)
qed

lemma descendants_update_desc:
  "map head (descendants (update_desc s f n))
     = map (\<lambda>(t, d, a). (t, d, if matches s (Node t d a []) then f a else a))
         (map head (descendants n))"
proof -
  have "map head (concat (map subtree (map (update_all s f) cs)))
      = map (\<lambda>(t, d, a). (t, d, if matches s (Node t d a []) then f a else a))
          (map head (concat (map subtree cs)))" for cs
    by (induction cs) (simp_all add: subtree_update_all)
  then show ?thesis by (simp add: descendants_def update_desc_def)
qed

lemma attr_or_set_attr: "attr_or (set_attr k v as) k dflt = v"
  by (induction as) auto

lemma attr_or_set_attr_other: "k' \<noteq> k \<Longrightarrow> attr_or (set_attr k v as) k' dflt = attr_or as k' dflt"
  by (induction as) auto

lemma attr_or_missing: "k \<notin> fst ` set as \<Longrightarrow> attr_or as k dflt = dflt"
  by (induction as) auto

lemma absolutize_heads:
  "map head (concat (map descendants (absolutize ext base sel)))
     = map (absolute ext base) (map head (concat (map descendants sel)))"
proof (induction sel)
  case Nil
  then show ?case by (simp add: absolutize_def)
next
  case (Cons n sel)
  have "map head (descendants
          (update_desc (ByTag ''img'')
             (\<lambda>as. set_attr ''src'' (abs_url ext base (attr_or as ''src'' [])) as)
             (update_desc (ByTag ''a'')
                (\<lambda>as. set_attr ''href'' (abs_url ext base (attr_or as ''href'' [])) as) n)))
      = map (absolute ext base) (map head (descendants n))"
    unfolding descendants_update_desc
    by (auto simp: absolute_def link_attr_def split: prod.splits)
  with Cons show ?case by (simp add: absolutize_def)
qed

text \<open>
  C10. Below the selection the two loops change nothing but attribute lists, and they change
  them as \<open>absolute\<close> says: afterwards the \<^verbatim>\<open>href\<close> of every \<^verbatim>\<open>a\<close> element and the
  \<^verbatim>\<open>src\<close> of every \<^verbatim>\<open>img\<close> element is \<^verbatim>\<open>abs\<close> of its old value, where a missing
  attribute reads as the empty string; \<^verbatim>\<open>abs\<close> of a string that does not parse is the empty
  string, and of one that parses it is the reference resolved against the base, which \<open>run\<close>
  takes from parsing \<open>projects_page\<close>.
\<close>

theorem absolutize_links:
  "map head (concat (map descendants (absolutize ext base sel)))
     = map (absolute ext base) (map head (concat (map descendants sel)))
   \<and> attr_or (snd (snd (absolute ext base (ElementNode, ''a'', as)))) ''href'' dflt
       = abs_url ext base (attr_or as ''href'' [])
   \<and> attr_or (snd (snd (absolute ext base (ElementNode, ''img'', as)))) ''src'' dflt
       = abs_url ext base (attr_or as ''src'' [])
   \<and> (k \<notin> fst ` set as \<longrightarrow> attr_or as k [] = [])
   \<and> (url_parse ext s = None \<longrightarrow> abs_url ext base s = [])
   \<and> (url_parse ext s = Some rel \<longrightarrow>
         abs_url ext base s = url_string ext (resolve_reference ext base rel))"
  by (simp add: absolutize_heads absolute_def link_attr_def attr_or_set_attr attr_or_missing
      abs_url_def)

lemma clean_Nil: "clean ext base [] = []"
  by (simp add: clean_def absolutize_def removes_def)

theorem absolutize_links_witness:
  "map head (concat (map descendants
      (absolutize sample_ext ''https://x/projects''
         [Node ElementNode ''div'' [(''id'', ''yield'')]
            [Node ElementNode ''a'' [(''href'', ''/park'')] [Node TextNode ''more'' [] []],
             Node ElementNode ''img'' [(''alt'', ''map'')] [],
             Node ElementNode ''a'' [(''href'', ''%'')] []]])))
   = [(ElementNode, ''a'', [(''href'', ''https://x/park'')]),
      (TextNode, ''more'', []),
      (ElementNode, ''img'', [(''alt'', ''map''), (''src'', ''https://x/projects'')]),
      (ElementNode, ''a'', [(''href'', [])])]
   \<and> ''src'' \<notin> fst ` set [(''alt'', ''map'')]
   \<and> url_parse sample_ext ''%'' = None
   \<and> url_parse sample_ext ''/park'' = Some ''/park''"
  (is "?H \<and> ?K \<and> ?P \<and> ?Q")
proof -
  have k: ?K by simp
  have p: ?P by (simp add: sample_ext_def)
  have q: ?Q by (simp add: sample_ext_def)
  have d: "map head (concat (map descendants
         [Node ElementNode ''div'' [(''id'', ''yield'')]
            [Node ElementNode ''a'' [(''href'', ''/park'')] [Node TextNode ''more'' [] []],
             Node ElementNode ''img'' [(''alt'', ''map'')] [],
             Node ElementNode ''a'' [(''href'', ''%'')] []]]))
     = [(ElementNode, ''a'', [(''href'', ''/park'')]),
        (TextNode, ''more'', []),
        (ElementNode, ''img'', [(''alt'', ''map'')]),
        (ElementNode, ''a'', [(''href'', ''%'')])]"
    by (simp add: descendants_def head_def)
  have h: ?H
    using absolutize_links [where ext = sample_ext and base = "''https://x/projects''"
        and sel = "[Node ElementNode ''div'' [(''id'', ''yield'')]
            [Node ElementNode ''a'' [(''href'', ''/park'')] [Node TextNode ''more'' [] []],
             Node ElementNode ''img'' [(''alt'', ''map'')] [],
             Node ElementNode ''a'' [(''href'', ''%'')] []]]"
        and k = "''src''" and as = "[(''alt'', ''map'')]" and s = "''%''"]
    unfolding d
    by (simp add: absolute_def link_attr_def abs_url_def sample_ext_def)
  have "abs_url sample_ext ''https://x/projects'' ''/park''
      = url_string sample_ext (resolve_reference sample_ext ''https://x/projects'' ''/park'')"
    using q absolutize_links [where ext = sample_ext and base = "''https://x/projects''"
        and s = "''/park''" and rel = "''/park''"]
    by blast
  with h k p q show ?thesis by blast
qed

text \<open>
  C9, as the code has it. When the fetched page has no element with id \<^verbatim>\<open>yield\<close>, \<^verbatim>\<open>get\<close>
  returns an empty selection and no error, and the turn goes on to store the project with an
  empty title and the fingerprint of the formatted empty string.
\<close>

theorem scrape_without_yield:
  assumes f: "fetch ext (URL p) = Inr doc"
    and n: "find_nodes (ById ''yield'') [doc] = []"
    and m: "to_markdown ext (gohtml_format ext []) = Inr md"
  shows "scrape ext base env p db
     = store env (p\<lparr>Title := [], HTML := gohtml_format ext [], Markdown := md,
                     HTMLSum := digest ext (gohtml_format ext [])\<rparr>) db"
proof -
  from f n have g: "get ext (URL p) [ById ''yield''] = Inr [[]]"
    by (simp add: get_def doc_find_def)
  have t: "title_of [] = []" by (simp add: title_of_def find_nodes_def)
  have h: "inner_html ext [] = []" by (simp add: inner_html_def)
  show ?thesis
    by (simp add: scrape_def g clean_Nil t h m fingerprint_def)
qed

theorem scrape_without_yield_witness:
  "fetch sample_ext (URL (tile ''https://x/gone'')) = Inr page_gone
   \<and> find_nodes (ById ''yield'') [page_gone] = []
   \<and> to_markdown sample_ext (gohtml_format sample_ext []) = Inr []
   \<and> scrape sample_ext ''https://x/projects'' (ok_env 7) (tile ''https://x/gone'') empty_db
      = (None,
         \<lparr>contents = [\<lparr>c_id = 1, c_hash = ''#'', c_html = [], c_markdown = []\<rparr>],
          projects = [\<lparr>p_id = 1, p_url = ''https://x/gone'', p_title = [],
                       p_state = ''open''\<rparr>],
          project_observations =
            [\<lparr>o_id = 1, o_project_id = Some 1, o_t = 7, o_content_id = Some 1\<rparr>]\<rparr>)"
  (is "?F \<and> ?N \<and> ?M \<and> ?S")
proof -
  have f: ?F by (simp add: sample_ext_def tile_def)
  have n: ?N by (simp add: find_nodes_def page_gone_def match_attribute_def)
  have m: ?M by (simp add: sample_ext_def)
  have "store (ok_env 7)
          ((tile ''https://x/gone'')\<lparr>Title := [], HTML := gohtml_format sample_ext [],
             Markdown := [], HTMLSum := digest sample_ext (gohtml_format sample_ext [])\<rparr>)
          empty_db
      = (None,
         \<lparr>contents = [\<lparr>c_id = 1, c_hash = ''#'', c_html = [], c_markdown = []\<rparr>],
          projects = [\<lparr>p_id = 1, p_url = ''https://x/gone'', p_title = [],
                       p_state = ''open''\<rparr>],
          project_observations =
            [\<lparr>o_id = 1, o_project_id = Some 1, o_t = 7, o_content_id = Some 1\<rparr>]\<rparr>)"
    by (simp add: sample_ext_def tile_def engine_defs)
  with scrape_without_yield [OF f n m, of "''https://x/projects''" "ok_env 7" empty_db] f n m
  show ?thesis by simp
qed

end
